theory Spec2Isabelle
  imports Complex_Main "HOL-Library.Word" "HOL-Library.Multiset"
begin

section \<open>Data model of search/retrieval.cpp\<close>

text \<open>
  The retrieval engine of \<^verbatim>\<open>search/retrieval.cpp\<close>: \<^verbatim>\<open>Retrieval::Init\<close> builds one
  \<^verbatim>\<open>FeatureBucket\<close> per admitted mwm, \<^verbatim>\<open>Retrieval::Go\<close> runs the expanding-viewport
  loop and the final drain. C++ \<^verbatim>\<open>double\<close> is modelled by \<open>real\<close> (no rounding, no
  overflow), \<^verbatim>\<open>uint32_t\<close> and \<^verbatim>\<open>uint64_t\<close> by machine words, \<^verbatim>\<open>vector\<close> by lists.
  Each \<^verbatim>\<open>ASSERT\<close> of the source is a branch that returns an \<open>error\<close>.
\<close>

type_synonym uint32 = "32 word"
type_synonym uint64 = "64 word"

datatype error =
    Misconfiguration  \<comment> \<open>\<^verbatim>\<open>ASSERT(IsMinNumFeaturesSet())\<close>, \<^verbatim>\<open>ASSERT(IsMaxViewportScaleSet())\<close>\<close>
  | NullMwmValue      \<comment> \<open>\<^verbatim>\<open>ASSERT(value, ())\<close>\<close>
  | ViewportMiss      \<comment> \<open>\<^verbatim>\<open>ASSERT(viewport.IsIntersect(header.GetBounds()), ())\<close>\<close>

subsection \<open>Rectangles\<close>

text \<open>
  Modelled from the spec: \<^verbatim>\<open>m2::RectD\<close> (\<^verbatim>\<open>geometry/rect2d.hpp\<close>) is not among the
  sources. The spec calls it an axis-aligned rectangle; the viewport "intersects" bounds,
  "fully contains" bounds, and scaling "by s" is uniform scaling about the centroid.
\<close>

record rect =
  m_minX :: real
  m_minY :: real
  m_maxX :: real
  m_maxY :: real

definition IsIntersect :: "rect \<Rightarrow> rect \<Rightarrow> bool" where
  "IsIntersect a b =
     (\<not> (m_maxX a < m_minX b \<or> m_minX a > m_maxX b \<or>
         m_maxY a < m_minY b \<or> m_minY a > m_maxY b))"

definition IsRectInside :: "rect \<Rightarrow> rect \<Rightarrow> bool" where
  "IsRectInside a b =
     (m_minX a \<le> m_minX b \<and> m_maxX b \<le> m_maxX a \<and>
      m_minY a \<le> m_minY b \<and> m_maxY b \<le> m_maxY a)"

definition Scale :: "rect \<Rightarrow> real \<Rightarrow> rect" where
  "Scale a s =
     (let cx = (m_minX a + m_maxX a) / 2;
          cy = (m_minY a + m_maxY a) / 2;
          hx = (m_maxX a - m_minX a) * s / 2;
          hy = (m_maxY a - m_minY a) * s / 2
      in \<lparr> m_minX = cx - hx, m_minY = cy - hy, m_maxX = cx + hx, m_maxY = cy + hy \<rparr>)"

subsection \<open>Mwm handles, the index and the query\<close>

text \<open>
  Modelled from the spec: \<^verbatim>\<open>MwmValue\<close>, \<^verbatim>\<open>MwmSet::MwmHandle\<close>, \<^verbatim>\<open>Index\<close> and
  \<^verbatim>\<open>SearchQueryParams\<close> are declared outside the sources. Only what \<^verbatim>\<open>retrieval.cpp\<close>
  reads is kept: of a value its header (bounds, scale range), whether the container has
  the sections \<^verbatim>\<open>SEARCH_INDEX_FILE_TAG\<close> and \<^verbatim>\<open>INDEX_FILE_TAG\<close>, and which file it is;
  of a handle \<^verbatim>\<open>GetId()\<close>, \<^verbatim>\<open>IsAlive()\<close> and \<^verbatim>\<open>GetValue<MwmValue>()\<close> (\<open>None\<close> is the
  null pointer); of the index \<^verbatim>\<open>GetMwmsInfo\<close> (the country file of each info) and
  \<^verbatim>\<open>GetMwmHandleByCountryFile\<close>.
\<close>

type_synonym MwmId = nat
type_synonym CountryFile = string

record MwmValue =
  GetBounds :: rect
  GetScaleRange :: "int \<times> int"
  IsExist_SEARCH_INDEX :: bool
  IsExist_INDEX :: bool
  m_file :: nat

record MwmHandle =
  GetId :: MwmId
  IsAlive :: bool
  GetValue :: "MwmValue option"

record Index =
  GetMwmsInfo :: "CountryFile list"
  GetMwmHandleByCountryFile :: "CountryFile \<Rightarrow> MwmHandle"

record SearchQueryParams =
  m_tokens :: "string list list"
  m_langs :: "int list"
  m_scale :: int

text \<open>
  The readers behind the two matchers are external: the trie matcher
  (\<^verbatim>\<open>MatchFeaturesInTrie\<close>, given here as the feature ids of the values it hands to the
  collector, in order), the covering of a viewport (\<^verbatim>\<open>CoveringGetter::Get\<close>) and the
  scale index (\<^verbatim>\<open>ScaleIndex::ForEachInIntervalAndScale\<close>). They are parameters of the
  model.
\<close>

record env =
  MatchFeaturesInTrie :: "SearchQueryParams \<Rightarrow> MwmValue \<Rightarrow> uint32 list"
  CoveringGet :: "rect \<Rightarrow> int \<Rightarrow> (int \<times> int) list"
  ForEachInIntervalAndScale :: "MwmValue \<Rightarrow> int \<Rightarrow> int \<Rightarrow> int \<Rightarrow> uint32 list"

subsection \<open>Limits\<close>

record Limits =
  m_minNumFeatures :: uint64
  m_maxViewportScale :: real
  m_minNumFeaturesSet :: bool
  m_maxViewportScaleSet :: bool

definition Limits_new :: Limits where
  "Limits_new = \<lparr> m_minNumFeatures = 0, m_maxViewportScale = 0,
                  m_minNumFeaturesSet = False, m_maxViewportScaleSet = False \<rparr>"

definition SetMinNumFeatures :: "Limits \<Rightarrow> uint64 \<Rightarrow> Limits" where
  "SetMinNumFeatures l minNumFeatures =
     l\<lparr> m_minNumFeatures := minNumFeatures, m_minNumFeaturesSet := True \<rparr>"

definition IsMinNumFeaturesSet :: "Limits \<Rightarrow> bool" where
  "IsMinNumFeaturesSet l = m_minNumFeaturesSet l"

definition GetMinNumFeatures :: "Limits \<Rightarrow> error + uint64" where
  "GetMinNumFeatures l =
     (if \<not> IsMinNumFeaturesSet l then Inl Misconfiguration else Inr (m_minNumFeatures l))"

definition SetMaxViewportScale :: "Limits \<Rightarrow> real \<Rightarrow> Limits" where
  "SetMaxViewportScale l maxViewportScale =
     l\<lparr> m_maxViewportScale := maxViewportScale, m_maxViewportScaleSet := True \<rparr>"

definition IsMaxViewportScaleSet :: "Limits \<Rightarrow> bool" where
  "IsMaxViewportScaleSet l = m_maxViewportScaleSet l"

definition GetMaxViewportScale :: "Limits \<Rightarrow> error + real" where
  "GetMaxViewportScale l =
     (if \<not> IsMaxViewportScaleSet l then Inl Misconfiguration else Inr (m_maxViewportScale l))"

subsection \<open>Buckets and the retrieval object\<close>

record FeatureBucket =
  m_handle :: MwmHandle
  m_addressFeatures :: "uint32 list"
  m_geometryFeatures :: "uint32 list"
  m_intersection :: "uint32 list"
  m_bounds :: rect
  m_intersectsWithViewport :: bool
  m_coveredByViewport :: bool
  m_finished :: bool

definition FeatureBucket_new :: "MwmHandle \<Rightarrow> error + FeatureBucket" where
  "FeatureBucket_new handle =
     (case GetValue handle of
        None \<Rightarrow> Inl NullMwmValue
      | Some v \<Rightarrow>
          Inr \<lparr> m_handle = handle, m_addressFeatures = [], m_geometryFeatures = [],
                m_intersection = [], m_bounds = GetBounds v,
                m_intersectsWithViewport = False, m_coveredByViewport = False,
                m_finished = False \<rparr>)"

record Retrieval =
  m_index :: "Index option"
  m_viewport :: rect
  m_params :: SearchQueryParams
  m_limits :: Limits
  m_buckets :: "FeatureBucket list"

text \<open>
  What \<^verbatim>\<open>Go\<close> does to the outside, in program order: it enters a per-viewport pass,
  it runs the address matcher on an mwm, it calls the callback. The trace is what a
  \<^verbatim>\<open>Callback\<close> object (and an observer of the matcher) sees of a run.
\<close>

datatype call =
    EnterRetrieveForViewport rect
  | RunRetrieveAddressFeatures MwmId
  | OnMwmProcessed MwmId "uint32 list"

fun sinkOf :: "call \<Rightarrow> (MwmId \<times> uint32 list) list" where
  "sinkOf (OnMwmProcessed i fs) = [(i, fs)]"
| "sinkOf _ = []"

fun passOf :: "call \<Rightarrow> rect list" where
  "passOf (EnterRetrieveForViewport v) = [v]"
| "passOf _ = []"

fun addressRunOf :: "call \<Rightarrow> MwmId list" where
  "addressRunOf (RunRetrieveAddressFeatures i) = [i]"
| "addressRunOf _ = []"

definition sinkCalls :: "call list \<Rightarrow> (MwmId \<times> uint32 list) list" where
  "sinkCalls tr = concat (map sinkOf tr)"

definition passes :: "call list \<Rightarrow> rect list" where
  "passes tr = concat (map passOf tr)"

definition addressRuns :: "call list \<Rightarrow> MwmId list" where
  "addressRuns tr = concat (map addressRunOf tr)"

section \<open>The matchers\<close>

definition RetrieveAddressFeatures ::
  "env \<Rightarrow> MwmHandle \<Rightarrow> SearchQueryParams \<Rightarrow> error + uint32 list" where
  "RetrieveAddressFeatures E handle params =
     (case GetValue handle of
        None \<Rightarrow> Inl NullMwmValue
      | Some v \<Rightarrow> Inr (MatchFeaturesInTrie E params v))"

definition RetrieveGeometryFeatures ::
  "env \<Rightarrow> MwmHandle \<Rightarrow> rect \<Rightarrow> SearchQueryParams \<Rightarrow> error + uint32 list" where
  "RetrieveGeometryFeatures E handle viewport params =
     (case GetValue handle of
        None \<Rightarrow> Inl NullMwmValue
      | Some v \<Rightarrow>
          if \<not> IsIntersect viewport (GetBounds v) then Inl ViewportMiss
          else
            let scaleRange = GetScaleRange v;
                scale = min (max (m_scale params) (fst scaleRange)) (snd scaleRange);
                intervals = CoveringGet E viewport scale
            in Inr (concat (map (\<lambda>interval.
                  ForEachInIntervalAndScale E v (fst interval) (snd interval) scale)
                  intervals)))"

text \<open>\<^verbatim>\<open>std::set_intersection\<close> on two sorted ranges: the two-pointer merge.\<close>

fun set_intersection :: "'a::linorder list \<Rightarrow> 'a list \<Rightarrow> 'a list" where
  "set_intersection (x # xs) (y # ys) =
     (if x < y then set_intersection xs (y # ys)
      else if y < x then set_intersection (x # xs) ys
      else x # set_intersection xs ys)"
| "set_intersection _ _ = []"

section \<open>Init\<close>

text \<open>The loop of \<^verbatim>\<open>Init\<close> over the infos; \<open>buckets\<close> is \<^verbatim>\<open>m_buckets\<close> so far.\<close>

fun InitLoop :: "Index \<Rightarrow> CountryFile list \<Rightarrow> FeatureBucket list \<Rightarrow> error + FeatureBucket list" where
  "InitLoop index [] buckets = Inr buckets"
| "InitLoop index (info # infos) buckets =
     (let handle = GetMwmHandleByCountryFile index info in
      if \<not> IsAlive handle then InitLoop index infos buckets
      else
        case GetValue handle of
          Some v \<Rightarrow>
            if IsExist_SEARCH_INDEX v \<and> IsExist_INDEX v then
              (case FeatureBucket_new handle of
                 Inl e \<Rightarrow> Inl e
               | Inr bucket \<Rightarrow> InitLoop index infos (buckets @ [bucket]))
            else InitLoop index infos buckets
        | None \<Rightarrow> InitLoop index infos buckets)"

definition Init ::
  "Retrieval \<Rightarrow> Index \<Rightarrow> rect \<Rightarrow> SearchQueryParams \<Rightarrow> Limits \<Rightarrow> error + Retrieval" where
  "Init r index viewport params limits =
     (let r1 = r\<lparr> m_index := Some index, m_viewport := viewport,
                  m_params := params, m_limits := limits \<rparr>
      in case InitLoop index (GetMwmsInfo index) [] of
           Inl e \<Rightarrow> Inl e
         | Inr buckets \<Rightarrow> Inr (r1\<lparr> m_buckets := buckets \<rparr>))"

section \<open>The per-viewport pass\<close>

text \<open>
  The body of the loop of \<^verbatim>\<open>RetrieveForViewport\<close> for one bucket, in the three steps
  of the source after the skip test: first contact, geometry pass, full-coverage report.
\<close>

definition firstContact ::
  "env \<Rightarrow> SearchQueryParams \<Rightarrow> FeatureBucket \<Rightarrow> error + FeatureBucket \<times> call list" where
  "firstContact E params bucket =
     (if \<not> m_intersectsWithViewport bucket then
        (case RetrieveAddressFeatures E (m_handle bucket) params of
           Inl e \<Rightarrow> Inl e
         | Inr offsets \<Rightarrow>
             Inr (bucket\<lparr> m_addressFeatures := sort offsets,
                          m_intersectsWithViewport := True \<rparr>,
                  [RunRetrieveAddressFeatures (GetId (m_handle bucket))]))
      else Inr (bucket, []))"

definition geometryPass ::
  "env \<Rightarrow> SearchQueryParams \<Rightarrow> rect \<Rightarrow> FeatureBucket \<Rightarrow> error + FeatureBucket" where
  "geometryPass E params viewport bucket =
     (if \<not> m_coveredByViewport bucket then
        (case RetrieveGeometryFeatures E (m_handle bucket) viewport params of
           Inl e \<Rightarrow> Inl e
         | Inr offsets \<Rightarrow>
             Inr (bucket\<lparr> m_geometryFeatures := sort offsets,
                          m_intersection :=
                            set_intersection (m_addressFeatures bucket) (sort offsets) \<rparr>))
      else Inr bucket)"

definition coverageReport :: "rect \<Rightarrow> FeatureBucket \<Rightarrow> FeatureBucket \<times> call list" where
  "coverageReport viewport bucket =
     (if \<not> m_coveredByViewport bucket \<and> IsRectInside viewport (m_bounds bucket) then
        (bucket\<lparr> m_coveredByViewport := True, m_finished := True \<rparr>,
         if m_intersection bucket \<noteq> []
         then [OnMwmProcessed (GetId (m_handle bucket)) (m_intersection bucket)]
         else [])
      else (bucket, []))"

definition processBucket ::
  "env \<Rightarrow> SearchQueryParams \<Rightarrow> rect \<Rightarrow> FeatureBucket \<Rightarrow> error + FeatureBucket \<times> call list" where
  "processBucket E params viewport bucket =
     (if m_coveredByViewport bucket \<or> m_finished bucket \<or>
         \<not> IsIntersect viewport (m_bounds bucket)
      then Inr (bucket, [])
      else
        case firstContact E params bucket of
          Inl e \<Rightarrow> Inl e
        | Inr (b1, cs1) \<Rightarrow>
            (case geometryPass E params viewport b1 of
               Inl e \<Rightarrow> Inl e
             | Inr b2 \<Rightarrow>
                 (case coverageReport viewport b2 of
                    (b3, cs3) \<Rightarrow> Inr (b3, cs1 @ cs3))))"

fun passLoop ::
  "env \<Rightarrow> SearchQueryParams \<Rightarrow> rect \<Rightarrow> FeatureBucket list \<Rightarrow>
   error + FeatureBucket list \<times> call list" where
  "passLoop E params viewport [] = Inr ([], [])"
| "passLoop E params viewport (bucket # buckets) =
     (case processBucket E params viewport bucket of
        Inl e \<Rightarrow> Inl e
      | Inr (b', cs) \<Rightarrow>
          (case passLoop E params viewport buckets of
             Inl e \<Rightarrow> Inl e
           | Inr (bs', cs') \<Rightarrow> Inr (b' # bs', cs @ cs')))"

definition RetrieveForViewport ::
  "env \<Rightarrow> Retrieval \<Rightarrow> rect \<Rightarrow> error + Retrieval \<times> call list" where
  "RetrieveForViewport E r viewport =
     (case passLoop E (m_params r) viewport (m_buckets r) of
        Inl e \<Rightarrow> Inl e
      | Inr (bs', cs) \<Rightarrow>
          Inr (r\<lparr> m_buckets := bs' \<rparr>, EnterRetrieveForViewport viewport # cs))"

fun coveredLoop :: "FeatureBucket list \<Rightarrow> bool" where
  "coveredLoop [] = True"
| "coveredLoop (bucket # buckets) =
     (if \<not> m_coveredByViewport bucket then False else coveredLoop buckets)"

definition ViewportCoversAllMwms :: "Retrieval \<Rightarrow> bool" where
  "ViewportCoversAllMwms r = coveredLoop (m_buckets r)"

definition CountRetrievedFeatures :: "Retrieval \<Rightarrow> uint64" where
  "CountRetrievedFeatures r =
     foldl (\<lambda>count bucket. count + of_nat (length (m_intersection bucket))) 0 (m_buckets r)"

section \<open>Go\<close>

definition kViewportScaleMul :: real where
  "kViewportScaleMul = sqrt 2"

text \<open>
  Lines 145 to 147 of the source: the local \<^verbatim>\<open>scale\<close> of one iteration, computed from
  the loop variable \<^verbatim>\<open>viewportScale\<close>.
\<close>

definition iterationScale :: "Limits \<Rightarrow> real \<Rightarrow> error + real" where
  "iterationScale limits viewportScale =
     (if IsMaxViewportScaleSet limits then
        (case GetMaxViewportScale limits of
           Inl e \<Rightarrow> Inl e
         | Inr m \<Rightarrow>
             if viewportScale \<ge> m then GetMaxViewportScale limits else Inr viewportScale)
      else Inr viewportScale)"

text \<open>
  The three exit tests after the pass, lines 153 to 158; \<open>True\<close> is \<^verbatim>\<open>break\<close>.
\<close>

definition exitTests :: "Retrieval \<Rightarrow> real \<Rightarrow> error + bool" where
  "exitTests r scale =
     (if ViewportCoversAllMwms r then Inr True
      else
        case (if IsMaxViewportScaleSet (m_limits r) then
                (case GetMaxViewportScale (m_limits r) of
                   Inl e \<Rightarrow> Inl e
                 | Inr m \<Rightarrow> Inr (scale \<ge> m))
              else Inr False) of
          Inl e \<Rightarrow> Inl e
        | Inr True \<Rightarrow> Inr True
        | Inr False \<Rightarrow>
            (if IsMinNumFeaturesSet (m_limits r) then
               (case GetMinNumFeatures (m_limits r) of
                  Inl e \<Rightarrow> Inl e
                | Inr n \<Rightarrow> Inr (CountRetrievedFeatures r \<ge> n))
             else Inr False))"

text \<open>One iteration of the expansion loop: the scale, the pass, the exit tests.\<close>

definition goIteration ::
  "env \<Rightarrow> real \<Rightarrow> Retrieval \<Rightarrow> error + bool \<times> Retrieval \<times> call list" where
  "goIteration E viewportScale r =
     (case iterationScale (m_limits r) viewportScale of
        Inl e \<Rightarrow> Inl e
      | Inr scale \<Rightarrow>
          let viewport = Scale (m_viewport r) scale in
          (case RetrieveForViewport E r viewport of
             Inl e \<Rightarrow> Inl e
           | Inr (r', cs) \<Rightarrow>
               (case exitTests r' scale of
                  Inl e \<Rightarrow> Inl e
                | Inr brk \<Rightarrow> Inr (brk, r', cs))))"

text \<open>
  The expansion loop has no bound of its own: it may run forever (a viewport of width
  zero never covers a wider mwm), so it is a partial function and \<open>None\<close> is a run that
  does not return. \<open>tr\<close> is the trace so far.
\<close>

partial_function (option) goLoop ::
  "env \<Rightarrow> real \<Rightarrow> Retrieval \<Rightarrow> call list \<Rightarrow> (error + Retrieval \<times> call list) option" where
  "goLoop E viewportScale r tr =
     (case goIteration E viewportScale r of
        Inl e \<Rightarrow> Some (Inl e)
      | Inr (brk, r', cs) \<Rightarrow>
          if brk then Some (Inr (r', tr @ cs))
          else goLoop E (viewportScale * kViewportScaleMul) r' (tr @ cs))"

text \<open>The loop after the expansion loop (lines 161 to 170), for one bucket and for all.\<close>

definition finishBucket :: "FeatureBucket \<Rightarrow> FeatureBucket \<times> call list" where
  "finishBucket bucket =
     (if m_finished bucket then (bucket, [])
      else
        (bucket\<lparr> m_finished := True \<rparr>,
         if m_intersection bucket \<noteq> []
         then [OnMwmProcessed (GetId (m_handle bucket)) (m_intersection bucket)]
         else []))"

fun drainLoop :: "FeatureBucket list \<Rightarrow> FeatureBucket list \<times> call list" where
  "drainLoop [] = ([], [])"
| "drainLoop (bucket # buckets) =
     (case finishBucket bucket of
        (b', cs) \<Rightarrow>
          (case drainLoop buckets of
             (bs', cs') \<Rightarrow> (b' # bs', cs @ cs')))"

definition Go :: "env \<Rightarrow> Retrieval \<Rightarrow> (error + Retrieval \<times> call list) option" where
  "Go E r =
     (case goLoop E 1 r [] of
        None \<Rightarrow> None
      | Some (Inl e) \<Rightarrow> Some (Inl e)
      | Some (Inr (r', tr)) \<Rightarrow>
          (case drainLoop (m_buckets r') of
             (bs', cs) \<Rightarrow> Some (Inr (r'\<lparr> m_buckets := bs' \<rparr>, tr @ cs))))"

section \<open>Notions used in the statements\<close>

text \<open>
  \<open>sameConfig\<close>: two retrieval objects differ at most in their buckets. \<open>stepRel\<close>:
  what any step of the controller keeps of one bucket. \<open>addressRunFor\<close> and \<open>sinkFor\<close>:
  the matcher run and the callback call that belong to the change of one bucket from
  \<open>b\<close> to \<open>b'\<close>; \<open>emitted\<close> puts them in the order of the source, \<open>emittedAll\<close>
  does so for a list of buckets.
\<close>

definition sameConfig :: "Retrieval \<Rightarrow> Retrieval \<Rightarrow> bool" where
  "sameConfig r r' =
     (m_index r' = m_index r \<and> m_viewport r' = m_viewport r \<and>
      m_params r' = m_params r \<and> m_limits r' = m_limits r)"

definition addressRunFor :: "FeatureBucket \<Rightarrow> FeatureBucket \<Rightarrow> MwmId list" where
  "addressRunFor b b' =
     (if \<not> m_intersectsWithViewport b \<and> m_intersectsWithViewport b'
      then [GetId (m_handle b')] else [])"

definition sinkFor :: "FeatureBucket \<Rightarrow> FeatureBucket \<Rightarrow> (MwmId \<times> uint32 list) list" where
  "sinkFor b b' =
     (if \<not> m_finished b \<and> m_finished b' \<and> m_intersection b' \<noteq> []
      then [(GetId (m_handle b'), m_intersection b')] else [])"

definition emitted :: "FeatureBucket \<Rightarrow> FeatureBucket \<Rightarrow> call list" where
  "emitted b b' =
     map RunRetrieveAddressFeatures (addressRunFor b b') @
     map (\<lambda>(i, fs). OnMwmProcessed i fs) (sinkFor b b')"

definition stepRel :: "FeatureBucket \<Rightarrow> FeatureBucket \<Rightarrow> bool" where
  "stepRel b b' =
     (m_handle b' = m_handle b \<and> m_bounds b' = m_bounds b \<and>
      (m_finished b \<longrightarrow> b' = b) \<and>
      (m_intersectsWithViewport b \<longrightarrow>
         m_intersectsWithViewport b' \<and> m_addressFeatures b' = m_addressFeatures b))"

definition emittedAll :: "FeatureBucket list \<Rightarrow> FeatureBucket list \<Rightarrow> call list" where
  "emittedAll bs bs' = concat (map (\<lambda>(b, b'). emitted b b') (zip bs bs'))"

text \<open>
  \<open>keptIfFinished\<close>: a bucket that is finished is left as it is. \<open>clampedScale\<close>:
  the scale of an iteration, as a function of the loop variable. \<open>sinkForAll\<close>: the
  callback calls that belong to the change of a list of buckets.
\<close>

definition keptIfFinished :: "FeatureBucket \<Rightarrow> FeatureBucket \<Rightarrow> bool" where
  "keptIfFinished b b' = (m_finished b \<longrightarrow> b' = b)"

definition clampedScale :: "Limits \<Rightarrow> real \<Rightarrow> real" where
  "clampedScale l v =
     (if m_maxViewportScaleSet l \<and> v \<ge> m_maxViewportScale l then m_maxViewportScale l else v)"

definition sinkForAll ::
  "FeatureBucket list \<Rightarrow> FeatureBucket list \<Rightarrow> (MwmId \<times> uint32 list) list" where
  "sinkForAll bs bs' = concat (map (\<lambda>(b, b'). sinkFor b b') (zip bs bs'))"

text \<open>
  \<open>addressOnceRel\<close>: what a step does to the address features of a bucket (kept once
  the bucket has been contacted; the sorted output of the address matcher when this step
  is the contact; untouched otherwise). \<open>uncontactedIsEligible\<close>: a bucket that was
  never contacted is neither covered nor finished, so no pass skips it for its flags.
  \<open>ascending\<close> and \<open>strictlyAscending\<close>: the cached address features and the
  intersection of a bucket are sorted, without and with duplicates excluded.
\<close>

definition addressOnceRel ::
  "env \<Rightarrow> SearchQueryParams \<Rightarrow> FeatureBucket \<Rightarrow> FeatureBucket \<Rightarrow> bool" where
  "addressOnceRel E p b b' =
     (m_handle b' = m_handle b \<and>
      (if m_intersectsWithViewport b
       then m_intersectsWithViewport b' \<and> m_addressFeatures b' = m_addressFeatures b
       else if m_intersectsWithViewport b'
       then (case RetrieveAddressFeatures E (m_handle b) p of
               Inl e \<Rightarrow> False
             | Inr offsets \<Rightarrow> m_addressFeatures b' = sort offsets)
       else m_addressFeatures b' = m_addressFeatures b))"

definition addressRunForAll :: "FeatureBucket list \<Rightarrow> FeatureBucket list \<Rightarrow> MwmId list" where
  "addressRunForAll bs bs' = concat (map (\<lambda>(b, b'). addressRunFor b b') (zip bs bs'))"

definition uncontactedIsEligible :: "FeatureBucket \<Rightarrow> bool" where
  "uncontactedIsEligible b =
     (m_coveredByViewport b \<or> m_finished b \<longrightarrow> m_intersectsWithViewport b)"

definition ascending :: "FeatureBucket \<Rightarrow> bool" where
  "ascending b = (sorted (m_addressFeatures b) \<and> sorted (m_intersection b))"

definition strictlyAscending :: "FeatureBucket \<Rightarrow> bool" where
  "strictlyAscending b =
     (sorted_wrt (<) (m_addressFeatures b) \<and> sorted_wrt (<) (m_intersection b))"

text \<open>
  The bucket that the spec describes for an admitted mwm: the handle is alive and both
  sections are there, every flag is false and every feature sequence is empty. It is
  compared with what \<^verbatim>\<open>Init\<close> builds.
\<close>

definition initialBucket :: "MwmHandle \<Rightarrow> FeatureBucket option" where
  "initialBucket h =
     (case GetValue h of
        None \<Rightarrow> None
      | Some v \<Rightarrow>
          if IsAlive h \<and> IsExist_SEARCH_INDEX v \<and> IsExist_INDEX v
          then Some \<lparr> m_handle = h, m_addressFeatures = [], m_geometryFeatures = [],
                      m_intersection = [], m_bounds = GetBounds v,
                      m_intersectsWithViewport = False, m_coveredByViewport = False,
                      m_finished = False \<rparr>
          else None)"

section \<open>A concrete index\<close>

text \<open>
  Two mwms with both sections (\<open>msk\<close> inside the viewport, \<open>mtv\<close> much wider than
  it), one without a search index and one whose handle is not alive; a matcher
  environment whose geometry output has duplicates, and one where both outputs have.
\<close>

definition exViewport :: rect where
  "exViewport = \<lparr> m_minX = 0, m_minY = 0, m_maxX = 2, m_maxY = 2 \<rparr>"

definition mskValue :: MwmValue where
  "mskValue = \<lparr> GetBounds = \<lparr> m_minX = 0, m_minY = 0, m_maxX = 1, m_maxY = 1 \<rparr>,
                GetScaleRange = (0, 17), IsExist_SEARCH_INDEX = True, IsExist_INDEX = True,
                m_file = 1 \<rparr>"

definition mtvValue :: MwmValue where
  "mtvValue = \<lparr> GetBounds = \<lparr> m_minX = - 10, m_minY = - 10, m_maxX = 10, m_maxY = 10 \<rparr>,
                GetScaleRange = (0, 17), IsExist_SEARCH_INDEX = True, IsExist_INDEX = True,
                m_file = 2 \<rparr>"

definition noSearchValue :: MwmValue where
  "noSearchValue = \<lparr> GetBounds = \<lparr> m_minX = 0, m_minY = 0, m_maxX = 1, m_maxY = 1 \<rparr>,
                GetScaleRange = (0, 17), IsExist_SEARCH_INDEX = False, IsExist_INDEX = True,
                m_file = 3 \<rparr>"

definition mskHandle :: MwmHandle where
  "mskHandle = \<lparr> GetId = 1, IsAlive = True, GetValue = Some mskValue \<rparr>"

definition mtvHandle :: MwmHandle where
  "mtvHandle = \<lparr> GetId = 2, IsAlive = True, GetValue = Some mtvValue \<rparr>"

definition noSearchHandle :: MwmHandle where
  "noSearchHandle = \<lparr> GetId = 3, IsAlive = True, GetValue = Some noSearchValue \<rparr>"

definition deadHandle :: MwmHandle where
  "deadHandle = \<lparr> GetId = 4, IsAlive = False, GetValue = None \<rparr>"

definition exIndex :: Index where
  "exIndex = \<lparr> GetMwmsInfo = [''msk'', ''old'', ''mtv'', ''gone''],
               GetMwmHandleByCountryFile = (\<lambda>c.
                 if c = ''msk'' then mskHandle
                 else if c = ''mtv'' then mtvHandle
                 else if c = ''old'' then noSearchHandle
                 else deadHandle) \<rparr>"

definition emptyIndex :: Index where
  "emptyIndex = \<lparr> GetMwmsInfo = [''old'', ''gone''],
               GetMwmHandleByCountryFile = GetMwmHandleByCountryFile exIndex \<rparr>"

definition exParams :: SearchQueryParams where
  "exParams = \<lparr> m_tokens = [[''mtv'']], m_langs = [0], m_scale = 17 \<rparr>"

definition exEnv :: env where
  "exEnv = \<lparr> MatchFeaturesInTrie = (\<lambda>p v. [5, 3, 8]),
             CoveringGet = (\<lambda>vp s. [(0, 1)]),
             ForEachInIntervalAndScale = (\<lambda>v lo hi s. [3, 3, 5, 9]) \<rparr>"

definition dupEnv :: env where
  "dupEnv = \<lparr> MatchFeaturesInTrie = (\<lambda>p v. [7, 7]),
             CoveringGet = (\<lambda>vp s. [(0, 1)]),
             ForEachInIntervalAndScale = (\<lambda>v lo hi s. [7, 7]) \<rparr>"

definition blankRetrieval :: Retrieval where
  "blankRetrieval = \<lparr> m_index = None,
       m_viewport = \<lparr> m_minX = 0, m_minY = 0, m_maxX = 0, m_maxY = 0 \<rparr>,
       m_params = \<lparr> m_tokens = [], m_langs = [], m_scale = 0 \<rparr>,
       m_limits = Limits_new, m_buckets = [] \<rparr>"

definition mskBucket :: FeatureBucket where
  "mskBucket = \<lparr> m_handle = mskHandle, m_addressFeatures = [], m_geometryFeatures = [],
                 m_intersection = [], m_bounds = GetBounds mskValue,
                 m_intersectsWithViewport = False, m_coveredByViewport = False,
                 m_finished = False \<rparr>"

definition mtvBucket :: FeatureBucket where
  "mtvBucket = \<lparr> m_handle = mtvHandle, m_addressFeatures = [], m_geometryFeatures = [],
                 m_intersection = [], m_bounds = GetBounds mtvValue,
                 m_intersectsWithViewport = False, m_coveredByViewport = False,
                 m_finished = False \<rparr>"

definition exRetrieval :: "Limits \<Rightarrow> Retrieval" where
  "exRetrieval limits = \<lparr> m_index = Some exIndex, m_viewport = exViewport,
       m_params = exParams, m_limits = limits, m_buckets = [mskBucket, mtvBucket] \<rparr>"

definition mskDone :: FeatureBucket where
  "mskDone = mskBucket\<lparr> m_addressFeatures := [3, 5, 8], m_geometryFeatures := [3, 3, 5, 9],
       m_intersection := [3, 5], m_intersectsWithViewport := True,
       m_coveredByViewport := True, m_finished := True \<rparr>"

definition mtvDone :: FeatureBucket where
  "mtvDone = mtvBucket\<lparr> m_addressFeatures := [3, 5, 8], m_geometryFeatures := [3, 3, 5, 9],
       m_intersection := [3, 5], m_intersectsWithViewport := True,
       m_finished := True \<rparr>"

definition emptyRetrieval :: Retrieval where
  "emptyRetrieval = \<lparr> m_index = Some emptyIndex, m_viewport = exViewport,
       m_params = exParams, m_limits = Limits_new, m_buckets = [] \<rparr>"

text \<open>
  The index of the test with three mwms, cut to two: \<open>msk\<close> under the viewport and
  \<open>zrh\<close> far from it, with a minimal number of features of 1.
\<close>

definition zrhValue :: MwmValue where
  "zrhValue = \<lparr> GetBounds = \<lparr> m_minX = 100, m_minY = 100, m_maxX = 101, m_maxY = 101 \<rparr>,
                GetScaleRange = (0, 17), IsExist_SEARCH_INDEX = True, IsExist_INDEX = True,
                m_file = 5 \<rparr>"

definition zrhHandle :: MwmHandle where
  "zrhHandle = \<lparr> GetId = 5, IsAlive = True, GetValue = Some zrhValue \<rparr>"

definition farIndex :: Index where
  "farIndex = \<lparr> GetMwmsInfo = [''msk'', ''zrh''],
               GetMwmHandleByCountryFile = (\<lambda>c. if c = ''msk'' then mskHandle else zrhHandle) \<rparr>"

definition zrhBucket :: FeatureBucket where
  "zrhBucket = \<lparr> m_handle = zrhHandle, m_addressFeatures = [], m_geometryFeatures = [],
                 m_intersection = [], m_bounds = GetBounds zrhValue,
                 m_intersectsWithViewport = False, m_coveredByViewport = False,
                 m_finished = False \<rparr>"

definition farRetrieval :: Retrieval where
  "farRetrieval = \<lparr> m_index = Some farIndex, m_viewport = exViewport,
       m_params = exParams, m_limits = SetMinNumFeatures Limits_new 1,
       m_buckets = [mskBucket, zrhBucket] \<rparr>"

section \<open>Lemmas\<close>

subsection \<open>Traces\<close>

lemma sinkCalls_simps [simp]:
  "sinkCalls [] = []"
  "sinkCalls (c # tr) = sinkOf c @ sinkCalls tr"
  "sinkCalls (tr @ tr') = sinkCalls tr @ sinkCalls tr'"
  by (simp_all add: sinkCalls_def)

lemma passes_simps [simp]:
  "passes [] = []"
  "passes (c # tr) = passOf c @ passes tr"
  "passes (tr @ tr') = passes tr @ passes tr'"
  by (simp_all add: passes_def)

lemma addressRuns_simps [simp]:
  "addressRuns [] = []"
  "addressRuns (c # tr) = addressRunOf c @ addressRuns tr"
  "addressRuns (tr @ tr') = addressRuns tr @ addressRuns tr'"
  by (simp_all add: addressRuns_def)

subsection \<open>What a pass and the drain leave alone\<close>

lemma sameConfig_refl [simp]: "sameConfig r r"
  by (simp add: sameConfig_def)

lemma sameConfig_trans: "sameConfig r r1 \<Longrightarrow> sameConfig r1 r2 \<Longrightarrow> sameConfig r r2"
  by (simp add: sameConfig_def)

lemma sameConfig_buckets [simp]: "sameConfig r (r\<lparr> m_buckets := bs \<rparr>)"
  by (simp add: sameConfig_def)

lemma passLoop_all2:
  assumes step: "\<And>b b' cs. processBucket E p vp b = Inr (b', cs) \<Longrightarrow> R b b'"
  shows "passLoop E p vp bs = Inr (bs', cs) \<Longrightarrow> list_all2 R bs bs'"
proof (induction bs arbitrary: bs' cs)
  case Nil
  then show ?case by simp
next
  case (Cons b bs)
  then show ?case
    by (auto split: sum.splits prod.splits dest: step)
qed

lemma RetrieveForViewport_buckets:
  assumes "RetrieveForViewport E r vp = Inr (r', cs)"
  obtains bs' cs' where "passLoop E (m_params r) vp (m_buckets r) = Inr (bs', cs')"
    and "r' = r\<lparr> m_buckets := bs' \<rparr>" and "cs = EnterRetrieveForViewport vp # cs'"
  using assms by (auto simp: RetrieveForViewport_def split: sum.splits prod.splits)

lemma goIteration_pass:
  assumes "goIteration E vs r = Inr (brk, r', cs)"
  obtains scale where "iterationScale (m_limits r) vs = Inr scale"
    and "RetrieveForViewport E r (Scale (m_viewport r) scale) = Inr (r', cs)"
    and "exitTests r' scale = Inr brk"
  using assms by (auto simp: goIteration_def Let_def split: sum.splits prod.splits)

lemma drainLoop_all2:
  assumes step: "\<And>b. R b (fst (finishBucket b))"
  shows "drainLoop bs = (bs', cs) \<Longrightarrow> list_all2 R bs bs'"
proof (induction bs arbitrary: bs' cs)
  case Nil
  then show ?case by simp
next
  case (Cons b bs)
  then show ?case
    using step [of b] by (auto split: prod.splits)
qed

lemma goLoop_induct [consumes 1, case_names fail exit continue]:
  assumes run: "goLoop E vs r tr = Some y"
    and fail: "\<And>vs r tr e. goIteration E vs r = Inl e \<Longrightarrow> P vs r tr (Inl e)"
    and exit: "\<And>vs r tr r' cs. goIteration E vs r = Inr (True, r', cs) \<Longrightarrow>
                 P vs r tr (Inr (r', tr @ cs))"
    and continue: "\<And>vs r tr r1 cs y. goIteration E vs r = Inr (False, r1, cs) \<Longrightarrow>
                 goLoop E (vs * kViewportScaleMul) r1 (tr @ cs) = Some y \<Longrightarrow>
                 P (vs * kViewportScaleMul) r1 (tr @ cs) y \<Longrightarrow> P vs r tr y"
  shows "P vs r tr y"
proof -
  define Q where "Q = (\<lambda>E' vs r tr y. E' = E \<longrightarrow> goLoop E vs r tr = Some y \<and> P vs r tr y)"
  have "Q E vs r tr y"
  proof (rule goLoop.raw_induct [where P = Q, OF _ run])
    fix goLoop' E' vs r tr y
    assume IH: "\<And>E vs r tr y. goLoop' E vs r tr = Some y \<Longrightarrow> Q E vs r tr y"
      and body': "(case goIteration E' vs r of Inl e \<Rightarrow> Some (Inl e)
                  | Inr (brk, r', cs) \<Rightarrow>
                      if brk then Some (Inr (r', tr @ cs))
                      else goLoop' E' (vs * kViewportScaleMul) r' (tr @ cs)) = Some y"
    show "Q E' vs r tr y"
      unfolding Q_def
    proof
      assume E: "E' = E"
      note body = body' [unfolded E]
      show "goLoop E vs r tr = Some y \<and> P vs r tr y"
      proof (cases "goIteration E vs r")
        case (Inl e)
        with body have "y = Inl e" by simp
        with Inl fail [of vs r e tr] show ?thesis
          by (subst goLoop.simps) simp
      next
        case (Inr t)
        obtain brk r1 cs where t: "t = (brk, r1, cs)" by (cases t)
        show ?thesis
        proof (cases brk)
          case True
          with Inr t body have "y = Inr (r1, tr @ cs)" by simp
          with Inr t True exit [of vs r r1 cs tr] show ?thesis
            by (subst goLoop.simps) simp
        next
          case False
          with Inr t body have "goLoop' E (vs * kViewportScaleMul) r1 (tr @ cs) = Some y"
            by simp
          from IH [OF this]
          have rec: "goLoop E (vs * kViewportScaleMul) r1 (tr @ cs) = Some y"
            and p: "P (vs * kViewportScaleMul) r1 (tr @ cs) y" by (simp_all add: Q_def)
          from Inr t False rec have "goLoop E vs r tr = Some y"
            by (subst goLoop.simps) simp
          moreover from Inr t False have "P vs r tr y"
            using continue [OF _ rec p] by simp
          ultimately show ?thesis ..
        qed
      qed
    qed
  qed
  then show ?thesis by (simp add: Q_def)
qed

lemma goLoop_all2:
  assumes run: "goLoop E vs r tr = Some (Inr (r', tr'))"
    and tr: "transp R"
    and step: "\<And>vp b b' cs. processBucket E (m_params r) vp b = Inr (b', cs) \<Longrightarrow> R b b'"
  shows "sameConfig r r' \<and> list_all2 R (m_buckets r) (m_buckets r')"
proof -
  have one: "sameConfig r r1 \<and> list_all2 R (m_buckets r) (m_buckets r1)"
    if it: "goIteration E vs r = Inr (brk, r1, cs)"
      and st: "\<forall>vp b b' cs. processBucket E (m_params r) vp b = Inr (b', cs) \<longrightarrow> R b b'"
    for vs r brk r1 cs
  proof -
    from it obtain scale where
      pass: "RetrieveForViewport E r (Scale (m_viewport r) scale) = Inr (r1, cs)"
      by (rule goIteration_pass)
    from pass obtain bs1 cs1 where
      pl: "passLoop E (m_params r) (Scale (m_viewport r) scale) (m_buckets r) = Inr (bs1, cs1)"
      and r1: "r1 = r\<lparr> m_buckets := bs1 \<rparr>"
      by (rule RetrieveForViewport_buckets)
    from passLoop_all2 [where R = R, OF _ pl] st r1 show ?thesis by auto
  qed
  have "(\<forall>vp b b' cs. processBucket E (m_params r) vp b = Inr (b', cs) \<longrightarrow> R b b') \<longrightarrow>
     (\<forall>r' tr'. y = Inr (r', tr') \<longrightarrow>
        sameConfig r r' \<and> list_all2 R (m_buckets r) (m_buckets r'))"
    if "goLoop E vs r tr = Some y" for y
    using that
  proof (induction rule: goLoop_induct)
    case (fail vs r tr e)
    show ?case by simp
  next
    case (exit vs r tr r' cs)
    then show ?case using one by auto
  next
    case (continue vs r tr r1 cs y)
    show ?case
    proof (intro impI allI)
      fix r' tr'
      assume st: "\<forall>vp b b' cs. processBucket E (m_params r) vp b = Inr (b', cs) \<longrightarrow> R b b'"
        and y: "y = Inr (r', tr')"
      from one [OF continue.hyps(1) st]
      have a: "sameConfig r r1" "list_all2 R (m_buckets r) (m_buckets r1)" by simp_all
      with st y continue.IH
      have "sameConfig r1 r'" "list_all2 R (m_buckets r1) (m_buckets r')"
        by (simp_all add: sameConfig_def)
      with a show "sameConfig r r' \<and> list_all2 R (m_buckets r) (m_buckets r')"
        using list_all2_trans [of R R R] tr
        by (meson sameConfig_trans transpD)
    qed
  qed
  from this [OF run] step show ?thesis by auto
qed

lemma Go_Some:
  assumes "Go E r = Some (Inr (r', tr))"
  obtains rL trL bs' cs where "goLoop E 1 r [] = Some (Inr (rL, trL))"
    and "drainLoop (m_buckets rL) = (bs', cs)"
    and "r' = rL\<lparr> m_buckets := bs' \<rparr>" and "tr = trL @ cs"
  using assms by (auto simp: Go_def split: option.splits sum.splits prod.splits)

lemma Go_all2:
  assumes run: "Go E r = Some (Inr (r', tr))"
    and tr: "transp R"
    and step: "\<And>vp b b' cs. processBucket E (m_params r) vp b = Inr (b', cs) \<Longrightarrow> R b b'"
    and fin: "\<And>b. R b (fst (finishBucket b))"
  shows "sameConfig r r' \<and> list_all2 R (m_buckets r) (m_buckets r')"
proof -
  from run obtain rL trL bs' cs where
    loop: "goLoop E 1 r [] = Some (Inr (rL, trL))" and
    drain: "drainLoop (m_buckets rL) = (bs', cs)" and
    r': "r' = rL\<lparr> m_buckets := bs' \<rparr>"
    by (rule Go_Some)
  from goLoop_all2 [OF loop tr step]
  have a: "sameConfig r rL" "list_all2 R (m_buckets r) (m_buckets rL)" by simp_all
  from drainLoop_all2 [where R = R, OF fin drain] have "list_all2 R (m_buckets rL) bs'" .
  with a r' show ?thesis
    using list_all2_trans [of R R R] tr
    by (auto simp: sameConfig_def dest: transpD)
qed

subsection \<open>What one bucket step emits\<close>

lemma stepRel_refl [simp]: "stepRel b b"
  by (simp add: stepRel_def)

lemma transp_stepRel: "transp stepRel"
  by (rule transpI) (auto simp: stepRel_def)

lemma emitted_refl [simp]: "emitted b b = []"
  by (simp add: emitted_def addressRunFor_def sinkFor_def)

lemma emitted_compose:
  "stepRel b b1 \<Longrightarrow> stepRel b1 b2 \<Longrightarrow> mset (emitted b b1) + mset (emitted b1 b2) = mset (emitted b b2)"
  by (auto simp: stepRel_def emitted_def addressRunFor_def sinkFor_def)

lemma processBucket_step:
  assumes "processBucket E p vp b = Inr (b', cs)"
  shows "cs = emitted b b' \<and> stepRel b b'"
  using assms
  by (auto simp: processBucket_def firstContact_def geometryPass_def coverageReport_def
        emitted_def addressRunFor_def sinkFor_def stepRel_def
      split: if_splits sum.splits prod.splits)

lemma finishBucket_step:
  "snd (finishBucket b) = emitted b (fst (finishBucket b)) \<and> stepRel b (fst (finishBucket b))"
  by (auto simp: finishBucket_def emitted_def addressRunFor_def sinkFor_def stepRel_def)

lemma emittedAll_simps [simp]:
  "emittedAll [] bs' = []"
  "emittedAll bs [] = []"
  "emittedAll (b # bs) (b' # bs') = emitted b b' @ emittedAll bs bs'"
  by (simp_all add: emittedAll_def)

lemma passLoop_emitted:
  "passLoop E p vp bs = Inr (bs', cs) \<Longrightarrow> cs = emittedAll bs bs'"
proof (induction bs arbitrary: bs' cs)
  case Nil
  then show ?case by simp
next
  case (Cons b bs)
  then show ?case
    by (auto split: sum.splits prod.splits dest: processBucket_step)
qed

lemma drainLoop_emitted:
  "drainLoop bs = (bs', cs) \<Longrightarrow> cs = emittedAll bs bs'"
proof (induction bs arbitrary: bs' cs)
  case Nil
  then show ?case by simp
next
  case (Cons b bs)
  then show ?case
    using finishBucket_step [of b] by (auto split: prod.splits)
qed

lemma emittedAll_compose:
  "list_all2 stepRel bs bs1 \<Longrightarrow> list_all2 stepRel bs1 bs2 \<Longrightarrow>
   mset (emittedAll bs bs1) + mset (emittedAll bs1 bs2) = mset (emittedAll bs bs2)"
proof (induction bs arbitrary: bs1 bs2)
  case Nil
  then show ?case by simp
next
  case (Cons b bs)
  then obtain c cs d ds where e: "bs1 = c # cs" "bs2 = d # ds"
    and s: "stepRel b c" "stepRel c d" "list_all2 stepRel bs cs" "list_all2 stepRel cs ds"
    by (auto simp: list_all2_Cons1)
  from Cons.IH [OF s(3,4)] emitted_compose [OF s(1,2)] e show ?case
    by (simp add: ac_simps)
qed

text \<open>The trace of a run: the pass entries, and what each bucket emitted.\<close>

lemma RetrieveForViewport_step:
  assumes "RetrieveForViewport E r vp = Inr (r', cs)"
  shows "sameConfig r r' \<and> list_all2 stepRel (m_buckets r) (m_buckets r') \<and>
         cs = EnterRetrieveForViewport vp # emittedAll (m_buckets r) (m_buckets r')"
proof -
  from assms obtain bs' cs' where
    pl: "passLoop E (m_params r) vp (m_buckets r) = Inr (bs', cs')"
    and r': "r' = r\<lparr> m_buckets := bs' \<rparr>" and cs: "cs = EnterRetrieveForViewport vp # cs'"
    by (rule RetrieveForViewport_buckets)
  from passLoop_all2 [where R = stepRel, OF _ pl] have "list_all2 stepRel (m_buckets r) bs'"
    by (blast dest: processBucket_step)
  with passLoop_emitted [OF pl] r' cs show ?thesis by simp
qed

lemma emitted_projections [simp]:
  "sinkCalls (emitted b b') = sinkFor b b'"
  "addressRuns (emitted b b') = addressRunFor b b'"
  "passes (emitted b b') = []"
  by (auto simp: emitted_def addressRunFor_def sinkFor_def)

lemma emittedAll_passes [simp]: "passes (emittedAll bs bs') = []"
proof (induction bs arbitrary: bs')
  case Nil
  then show ?case by simp
next
  case (Cons b bs)
  then show ?case by (cases bs') simp_all
qed

lemma mset_concat_map_cong:
  assumes "mset xs = mset ys"
  shows "mset (concat (map f xs)) = mset (concat (map f ys))"
proof -
  have "mset (concat (map f zs)) = sum_mset (image_mset (\<lambda>z. mset (f z)) (mset zs))" for zs
    by (induction zs) simp_all
  with assms show ?thesis by simp
qed

lemma goLoop_account:
  assumes run: "goLoop E vs r tr = Some (Inr (r', tr'))"
    and noEnter: "\<And>v. f (EnterRetrieveForViewport v) = []"
  shows "mset (concat (map f tr')) =
         mset (concat (map f tr)) +
         mset (concat (map f (emittedAll (m_buckets r) (m_buckets r'))))"
proof -
  have "\<forall>r' tr'. y = Inr (r', tr') \<longrightarrow>
          mset (concat (map f tr')) =
          mset (concat (map f tr)) +
          mset (concat (map f (emittedAll (m_buckets r) (m_buckets r'))))"
    if "goLoop E vs r tr = Some y" for y
    using that
  proof (induction rule: goLoop_induct)
    case (fail vs r tr e)
    show ?case by simp
  next
    case (exit vs r tr r' cs)
    then obtain scale where "RetrieveForViewport E r (Scale (m_viewport r) scale) = Inr (r', cs)"
      by (rule goIteration_pass)
    from RetrieveForViewport_step [OF this] show ?case
      by (simp add: noEnter)
  next
    case (continue vs r tr r1 cs y)
    from continue.hyps(1) obtain scale where
      "RetrieveForViewport E r (Scale (m_viewport r) scale) = Inr (r1, cs)"
      by (rule goIteration_pass)
    from RetrieveForViewport_step [OF this]
    have s1: "list_all2 stepRel (m_buckets r) (m_buckets r1)"
      and cs: "cs = EnterRetrieveForViewport (Scale (m_viewport r) scale) #
                    emittedAll (m_buckets r) (m_buckets r1)"
      by simp_all
    show ?case
    proof (intro allI impI)
      fix r' tr'
      assume y: "y = Inr (r', tr')"
      from continue.hyps(2) y
      have "goLoop E (vs * kViewportScaleMul) r1 (tr @ cs) = Some (Inr (r', tr'))" by simp
      from goLoop_all2 [OF this transp_stepRel]
      have s2: "list_all2 stepRel (m_buckets r1) (m_buckets r')"
        by (blast dest: processBucket_step)
      from emittedAll_compose [OF s1 s2]
      have "mset (emittedAll (m_buckets r) (m_buckets r1) @ emittedAll (m_buckets r1) (m_buckets r')) =
            mset (emittedAll (m_buckets r) (m_buckets r'))" by simp
      from mset_concat_map_cong [OF this, of f] continue.IH y cs
      show "mset (concat (map f tr')) =
            mset (concat (map f tr)) +
            mset (concat (map f (emittedAll (m_buckets r) (m_buckets r'))))"
        by (simp add: noEnter)
    qed
  qed
  from this [OF run] show ?thesis by simp
qed

lemma Go_account:
  assumes run: "Go E r = Some (Inr (r', tr))"
    and noEnter: "\<And>v. f (EnterRetrieveForViewport v) = []"
  shows "sameConfig r r' \<and> list_all2 stepRel (m_buckets r) (m_buckets r') \<and>
         mset (concat (map f tr)) =
         mset (concat (map f (emittedAll (m_buckets r) (m_buckets r'))))"
proof -
  from run obtain rL trL bs' cs where
    loop: "goLoop E 1 r [] = Some (Inr (rL, trL))" and
    drain: "drainLoop (m_buckets rL) = (bs', cs)" and
    r': "r' = rL\<lparr> m_buckets := bs' \<rparr>" and tr: "tr = trL @ cs"
    by (rule Go_Some)
  from goLoop_all2 [OF loop transp_stepRel]
  have a: "sameConfig r rL" "list_all2 stepRel (m_buckets r) (m_buckets rL)"
    by (blast dest: processBucket_step)+
  from drainLoop_all2 [where R = stepRel, OF _ drain]
  have b: "list_all2 stepRel (m_buckets rL) bs'"
    by (simp add: finishBucket_step)
  from emittedAll_compose [OF a(2) b] drainLoop_emitted [OF drain]
  have "mset (emittedAll (m_buckets r) (m_buckets rL) @ cs) = mset (emittedAll (m_buckets r) bs')"
    by simp
  from mset_concat_map_cong [OF this, of f] goLoop_account [where f = f, OF loop noEnter] tr r'
  have "mset (concat (map f tr)) = mset (concat (map f (emittedAll (m_buckets r) (m_buckets r'))))"
    by simp
  moreover from a b have "list_all2 stepRel (m_buckets r) bs'"
    using list_all2_trans [of stepRel stepRel stepRel] transp_stepRel
    by (meson transpD)
  ultimately show ?thesis using a(1) r' by (simp add: sameConfig_def)
qed

subsection \<open>The concrete index, evaluated\<close>

lemmas ex_defs = exViewport_def mskValue_def mtvValue_def noSearchValue_def mskHandle_def
  mtvHandle_def noSearchHandle_def deadHandle_def exIndex_def emptyIndex_def exParams_def
  exEnv_def dupEnv_def blankRetrieval_def mskBucket_def mtvBucket_def exRetrieval_def
  emptyRetrieval_def zrhValue_def zrhHandle_def farIndex_def zrhBucket_def farRetrieval_def

lemmas model_defs = Init_def FeatureBucket_new_def RetrieveForViewport_def processBucket_def
  firstContact_def geometryPass_def coverageReport_def RetrieveAddressFeatures_def
  RetrieveGeometryFeatures_def IsIntersect_def IsRectInside_def Scale_def goIteration_def
  iterationScale_def exitTests_def ViewportCoversAllMwms_def CountRetrievedFeatures_def
  finishBucket_def Go_def Limits_new_def SetMinNumFeatures_def SetMaxViewportScale_def
  IsMinNumFeaturesSet_def IsMaxViewportScaleSet_def GetMinNumFeatures_def
  GetMaxViewportScale_def Let_def

lemma Init_example:
  "Init blankRetrieval exIndex exViewport exParams limits = Inr (exRetrieval limits)"
  by (simp add: ex_defs model_defs)

lemma Init_empty_example:
  "Init blankRetrieval emptyIndex exViewport exParams Limits_new = Inr emptyRetrieval"
  by (simp add: ex_defs model_defs)

lemma Go_example_min0:
  "Go exEnv (exRetrieval (SetMinNumFeatures Limits_new 0)) =
   Some (Inr ((exRetrieval (SetMinNumFeatures Limits_new 0))\<lparr> m_buckets := [mskDone, mtvDone] \<rparr>,
     [EnterRetrieveForViewport exViewport,
      RunRetrieveAddressFeatures 1, OnMwmProcessed 1 [3, 5],
      RunRetrieveAddressFeatures 2,
      OnMwmProcessed 2 [3, 5]]))"
  unfolding Go_def
  apply (subst goLoop.simps)
  apply (simp add: ex_defs model_defs mskDone_def mtvDone_def)
  done

subsection \<open>Errors of a run\<close>

lemma processBucket_error:
  "processBucket E p vp b = Inl e \<Longrightarrow> e \<noteq> Misconfiguration"
  by (auto simp: processBucket_def firstContact_def geometryPass_def
        RetrieveAddressFeatures_def RetrieveGeometryFeatures_def Let_def
      split: if_splits sum.splits prod.splits option.splits)

lemma passLoop_error:
  "passLoop E p vp bs = Inl e \<Longrightarrow> e \<noteq> Misconfiguration"
proof (induction bs)
  case Nil
  then show ?case by simp
next
  case (Cons b bs)
  then show ?case
    by (auto split: sum.splits prod.splits dest: processBucket_error)
qed

lemma iterationScale_value:
  "iterationScale l vs =
     Inr (if m_maxViewportScaleSet l \<and> vs \<ge> m_maxViewportScale l
          then m_maxViewportScale l else vs)"
  by (simp add: iterationScale_def IsMaxViewportScaleSet_def GetMaxViewportScale_def)

lemma exitTests_value:
  "exitTests r scale =
     Inr (ViewportCoversAllMwms r \<or>
          (m_maxViewportScaleSet (m_limits r) \<and> scale \<ge> m_maxViewportScale (m_limits r)) \<or>
          (m_minNumFeaturesSet (m_limits r) \<and>
             CountRetrievedFeatures r \<ge> m_minNumFeatures (m_limits r)))"
  by (auto simp: exitTests_def IsMaxViewportScaleSet_def GetMaxViewportScale_def
        IsMinNumFeaturesSet_def GetMinNumFeatures_def split: bool.splits)

lemma goIteration_error:
  "goIteration E vs r = Inl e \<Longrightarrow> e \<noteq> Misconfiguration"
  by (auto simp: goIteration_def iterationScale_value exitTests_value RetrieveForViewport_def
        Let_def split: sum.splits prod.splits dest: passLoop_error)

lemma goLoop_error:
  assumes "goLoop E vs r tr = Some y"
  shows "y \<noteq> Inl Misconfiguration"
  using assms
proof (induction rule: goLoop_induct)
  case (fail vs r tr e)
  then show ?case by (auto dest: goIteration_error)
next
  case (exit vs r tr r' cs)
  show ?case by simp
next
  case (continue vs r tr r1 cs y)
  then show ?case by simp
qed

subsection \<open>Finished buckets, a second run, the viewports of the passes\<close>

lemma stepRel_kept: "stepRel b b' \<Longrightarrow> keptIfFinished b b'"
  by (simp add: stepRel_def keptIfFinished_def)

lemma list_all2_stepRel_kept:
  "list_all2 stepRel bs bs' \<Longrightarrow> list_all2 keptIfFinished bs bs'"
  by (erule list_all2_mono) (rule stepRel_kept)

lemma processBucket_finished:
  "m_finished b \<Longrightarrow> processBucket E p vp b = Inr (b, [])"
  by (simp add: processBucket_def)

lemma finishBucket_finished:
  "m_finished b \<Longrightarrow> finishBucket b = (b, [])"
  by (simp add: finishBucket_def)

lemma passLoop_finished:
  "list_all m_finished bs \<Longrightarrow> passLoop E p vp bs = Inr (bs, [])"
  by (induction bs) (simp_all add: processBucket_finished)

lemma drainLoop_finished:
  "list_all m_finished bs \<Longrightarrow> drainLoop bs = (bs, [])"
  by (induction bs) (simp_all add: finishBucket_finished)

lemma drainLoop_all_finished:
  "drainLoop bs = (bs', cs) \<Longrightarrow> list_all m_finished bs'"
proof (induction bs arbitrary: bs' cs)
  case Nil
  then show ?case by simp
next
  case (Cons b bs)
  then show ?case
    by (auto simp: finishBucket_def split: prod.splits if_splits)
qed

lemma drainLoop_step:
  assumes "drainLoop bs = (bs', cs)"
  shows "list_all2 stepRel bs bs'"
  using drainLoop_all2 [where R = stepRel, OF _ assms] by (simp add: finishBucket_step)

lemma goLoop_step:
  assumes "goLoop E vs r tr = Some (Inr (r', tr'))"
  shows "sameConfig r r' \<and> list_all2 stepRel (m_buckets r) (m_buckets r')"
  using goLoop_all2 [OF assms transp_stepRel] by (blast dest: processBucket_step)

lemma Go_step:
  assumes "Go E r = Some (Inr (r', tr))"
  shows "sameConfig r r' \<and> list_all2 stepRel (m_buckets r) (m_buckets r')"
  using Go_account [OF assms, of sinkOf] by simp

lemma iterationScale_clamped: "iterationScale l vs = Inr (clampedScale l vs)"
  by (simp add: iterationScale_value clampedScale_def)

lemma goIteration_value:
  assumes "goIteration E vs r = Inr (brk, r1, cs)"
  shows "RetrieveForViewport E r (Scale (m_viewport r) (clampedScale (m_limits r) vs)) = Inr (r1, cs)"
    and "exitTests r1 (clampedScale (m_limits r) vs) = Inr brk"
  using assms
  by (auto simp: goIteration_def iterationScale_clamped Let_def split: sum.splits prod.splits)

lemma goIteration_finished:
  assumes "list_all m_finished (m_buckets t)"
  shows "\<exists>brk. exitTests t (clampedScale (m_limits t) vs) = Inr brk \<and>
           goIteration E vs t =
             Inr (brk, t, [EnterRetrieveForViewport
                             (Scale (m_viewport t) (clampedScale (m_limits t) vs))])"
  using assms
  by (simp add: goIteration_def iterationScale_clamped RetrieveForViewport_def
        passLoop_finished exitTests_value)

lemma coveredLoop_cong:
  "list_all2 (\<lambda>b b'. m_coveredByViewport b' = m_coveredByViewport b) bs bs' \<Longrightarrow>
   coveredLoop bs' = coveredLoop bs"
  by (induction rule: list_all2_induct) simp_all

lemma count_cong:
  "list_all2 (\<lambda>b b'. m_intersection b' = m_intersection b) bs bs' \<Longrightarrow>
   foldl (\<lambda>count bucket. count + (of_nat (length (m_intersection bucket)) :: uint64)) c bs' =
   foldl (\<lambda>count bucket. count + of_nat (length (m_intersection bucket))) c bs"
  by (induction arbitrary: c rule: list_all2_induct) simp_all

lemma drainLoop_progress:
  assumes "drainLoop (m_buckets r) = (bs', cs)"
  shows "ViewportCoversAllMwms (r\<lparr> m_buckets := bs' \<rparr>) = ViewportCoversAllMwms r \<and>
         CountRetrievedFeatures (r\<lparr> m_buckets := bs' \<rparr>) = CountRetrievedFeatures r"
proof -
  have "list_all2 (\<lambda>b b'. m_coveredByViewport b' = m_coveredByViewport b \<and>
                           m_intersection b' = m_intersection b) (m_buckets r) bs'"
    by (rule drainLoop_all2 [OF _ assms]) (simp add: finishBucket_def)
  then have "list_all2 (\<lambda>b b'. m_coveredByViewport b' = m_coveredByViewport b) (m_buckets r) bs'"
    and "list_all2 (\<lambda>b b'. m_intersection b' = m_intersection b) (m_buckets r) bs'"
    by (auto elim: list_all2_mono)
  then show ?thesis
    by (simp add: ViewportCoversAllMwms_def CountRetrievedFeatures_def coveredLoop_cong count_cong)
qed

lemma goLoop_rerun:
  assumes run: "goLoop E vs r tr = Some (Inr (rL, trL))"
    and fin: "list_all m_finished (m_buckets t)"
    and cfg: "m_limits t = m_limits r"
    and cov: "ViewportCoversAllMwms t = ViewportCoversAllMwms rL"
    and cnt: "CountRetrievedFeatures t = CountRetrievedFeatures rL"
  shows "\<exists>tr1. goLoop E vs t tr0 = Some (Inr (t, tr0 @ tr1)) \<and>
               sinkCalls tr1 = [] \<and> addressRuns tr1 = []"
proof -
  have "\<forall>rL trL tr0. y = Inr (rL, trL) \<longrightarrow> m_limits t = m_limits r \<longrightarrow>
          ViewportCoversAllMwms t = ViewportCoversAllMwms rL \<longrightarrow>
          CountRetrievedFeatures t = CountRetrievedFeatures rL \<longrightarrow>
          (\<exists>tr1. goLoop E vs t tr0 = Some (Inr (t, tr0 @ tr1)) \<and>
                  sinkCalls tr1 = [] \<and> addressRuns tr1 = [])"
    if "goLoop E vs r tr = Some y" for y
    using that
  proof (induction rule: goLoop_induct)
    case (fail vs r tr e)
    show ?case by simp
  next
    case (exit vs r tr r' cs)
    show ?case
    proof (intro allI impI)
      fix rL trL tr0
      assume y: "Inr (r', tr @ cs) = Inr (rL, trL)"
        and cfg: "m_limits t = m_limits r"
        and cov: "ViewportCoversAllMwms t = ViewportCoversAllMwms rL"
        and cnt: "CountRetrievedFeatures t = CountRetrievedFeatures rL"
      from goIteration_value [OF exit.hyps] RetrieveForViewport_step
      have ex: "exitTests r' (clampedScale (m_limits r) vs) = Inr True"
        and "sameConfig r r'" by blast+
      with y cfg cov cnt have "exitTests t (clampedScale (m_limits t) vs) = Inr True"
        by (simp add: exitTests_value sameConfig_def)
      with goIteration_finished [OF fin, of vs E]
      have "goLoop E vs t tr0 =
              Some (Inr (t, tr0 @ [EnterRetrieveForViewport
                       (Scale (m_viewport t) (clampedScale (m_limits t) vs))]))"
        by (subst goLoop.simps) auto
      then show "\<exists>tr1. goLoop E vs t tr0 = Some (Inr (t, tr0 @ tr1)) \<and>
                      sinkCalls tr1 = [] \<and> addressRuns tr1 = []"
        by (intro exI [of _ "[EnterRetrieveForViewport
                       (Scale (m_viewport t) (clampedScale (m_limits t) vs))]"]) simp
    qed
  next
    case (continue vs r tr r1 cs y)
    show ?case
    proof (intro allI impI)
      fix rL trL tr0
      assume y: "y = Inr (rL, trL)"
        and cfg: "m_limits t = m_limits r"
        and cov: "ViewportCoversAllMwms t = ViewportCoversAllMwms rL"
        and cnt: "CountRetrievedFeatures t = CountRetrievedFeatures rL"
      let ?e = "EnterRetrieveForViewport (Scale (m_viewport t) (clampedScale (m_limits t) vs))"
      from goIteration_value [OF continue.hyps(1)] RetrieveForViewport_step
      have "sameConfig r r1" by blast
      with cfg have cfg1: "m_limits t = m_limits r1" by (simp add: sameConfig_def)
      from continue.IH y cfg1 cov cnt obtain tr1 where
        rec: "goLoop E (vs * kViewportScaleMul) t (tr0 @ [?e]) = Some (Inr (t, (tr0 @ [?e]) @ tr1))"
        and quiet: "sinkCalls tr1 = []" "addressRuns tr1 = []"
        by blast
      from goIteration_finished [OF fin, of vs E] obtain brk where
        it: "goIteration E vs t = Inr (brk, t, [?e])" by blast
      show "\<exists>tr1. goLoop E vs t tr0 = Some (Inr (t, tr0 @ tr1)) \<and>
                  sinkCalls tr1 = [] \<and> addressRuns tr1 = []"
      proof (cases brk)
        case True
        with it have "goLoop E vs t tr0 = Some (Inr (t, tr0 @ [?e]))"
          by (subst goLoop.simps) simp
        then show ?thesis by (intro exI [of _ "[?e]"]) simp
      next
        case False
        with it rec have "goLoop E vs t tr0 = Some (Inr (t, tr0 @ (?e # tr1)))"
          by (subst goLoop.simps) simp
        with quiet show ?thesis by (intro exI [of _ "?e # tr1"]) simp
      qed
    qed
  qed
  from this [OF run] cfg cov cnt show ?thesis by blast
qed

lemma RetrieveForViewport_passes:
  "RetrieveForViewport E r vp = Inr (r', cs) \<Longrightarrow> passes cs = [vp]"
  by (drule RetrieveForViewport_step) simp

lemma drainLoop_passes: "drainLoop bs = (bs', cs) \<Longrightarrow> passes cs = []"
  by (drule drainLoop_emitted) simp

lemma goLoop_passes:
  assumes run: "goLoop E vs r tr = Some (Inr (r', tr'))"
  shows "\<exists>n>0. passes tr' = passes tr @
           map (\<lambda>k. Scale (m_viewport r) (clampedScale (m_limits r) (vs * kViewportScaleMul ^ k)))
             [0..<n]"
proof -
  have "\<forall>r' tr'. y = Inr (r', tr') \<longrightarrow>
          (\<exists>n>0. passes tr' = passes tr @
             map (\<lambda>k. Scale (m_viewport r) (clampedScale (m_limits r) (vs * kViewportScaleMul ^ k)))
               [0..<n])"
    if "goLoop E vs r tr = Some y" for y
    using that
  proof (induction rule: goLoop_induct)
    case (fail vs r tr e)
    show ?case by simp
  next
    case (exit vs r tr r' cs)
    from goIteration_value(1) [OF exit.hyps] have "passes cs =
      [Scale (m_viewport r) (clampedScale (m_limits r) vs)]"
      by (rule RetrieveForViewport_passes)
    then show ?case
      by (auto intro!: exI [of _ "Suc 0"])
  next
    case (continue vs r tr r1 cs y)
    from goIteration_value(1) [OF continue.hyps(1)]
    have p: "passes cs = [Scale (m_viewport r) (clampedScale (m_limits r) vs)]"
      and c: "sameConfig r r1"
      by (simp_all add: RetrieveForViewport_passes RetrieveForViewport_step)
    show ?case
    proof (intro allI impI)
      fix r' tr'
      assume "y = Inr (r', tr')"
      with continue.IH obtain n where
        n: "passes tr' = passes (tr @ cs) @
              map (\<lambda>k. Scale (m_viewport r1)
                     (clampedScale (m_limits r1) (vs * kViewportScaleMul * kViewportScaleMul ^ k)))
                [0..<n]"
        by blast
      with p c have "passes tr' = passes tr @
              map (\<lambda>k. Scale (m_viewport r) (clampedScale (m_limits r) (vs * kViewportScaleMul ^ k)))
                [0..<Suc n]"
        by (simp add: sameConfig_def map_upt_Suc mult.assoc del: upt_Suc)
      then show "\<exists>n>0. passes tr' = passes tr @
              map (\<lambda>k. Scale (m_viewport r) (clampedScale (m_limits r) (vs * kViewportScaleMul ^ k)))
                [0..<n]"
        by blast
    qed
  qed
  from this [OF run] show ?thesis by simp
qed

lemma sqrt2_bound: "6 / 5 \<le> sqrt 2"
  by (rule real_le_rsqrt) (simp add: power2_eq_square)

lemma sqrt2_neq: "sqrt 2 \<noteq> 6 / 5"
proof -
  have "(sqrt 2)\<^sup>2 = 2" by simp
  moreover have "(6 / 5 :: real)\<^sup>2 \<noteq> 2" by (simp add: power2_eq_square)
  ultimately show ?thesis by metis
qed

lemma sqrt2_bound_simp: "6 \<le> sqrt 2 * 5"
  using sqrt2_bound by simp

lemma Go_example_max:
  "Go exEnv (exRetrieval (SetMaxViewportScale Limits_new (6 / 5))) =
   Some (Inr ((exRetrieval (SetMaxViewportScale Limits_new (6 / 5)))\<lparr> m_buckets := [mskDone, mtvDone] \<rparr>,
     [EnterRetrieveForViewport exViewport,
      RunRetrieveAddressFeatures 1, OnMwmProcessed 1 [3, 5],
      RunRetrieveAddressFeatures 2,
      EnterRetrieveForViewport \<lparr> m_minX = - (1 / 5), m_minY = - (1 / 5),
                                 m_maxX = 11 / 5, m_maxY = 11 / 5 \<rparr>,
      OnMwmProcessed 2 [3, 5]]))"
  unfolding Go_def
  apply (subst goLoop.simps)
  apply (simp add: ex_defs model_defs mskDone_def mtvDone_def)
  apply (subst goLoop.simps)
  apply (simp add: ex_defs model_defs mskDone_def mtvDone_def kViewportScaleMul_def
           sqrt2_bound_simp)
  done

lemma sinkForAll_simps [simp]:
  "sinkForAll [] bs' = []"
  "sinkForAll bs [] = []"
  "sinkForAll (b # bs) (b' # bs') = sinkFor b b' @ sinkForAll bs bs'"
  by (simp_all add: sinkForAll_def)

lemma sinkCalls_emittedAll:
  "list_all2 R bs bs' \<Longrightarrow> sinkCalls (emittedAll bs bs') = sinkForAll bs bs'"
  by (induction rule: list_all2_induct) simp_all

lemma sinkForAll_ids:
  "list_all2 stepRel bs bs' \<Longrightarrow>
   set (map fst (sinkForAll bs bs')) \<subseteq> set (map (GetId \<circ> m_handle) bs) \<and>
   (distinct (map (GetId \<circ> m_handle) bs) \<longrightarrow> distinct (map fst (sinkForAll bs bs')))"
proof (induction rule: list_all2_induct)
  case Nil
  then show ?case by simp
next
  case (Cons b bs b' bs')
  then show ?case
    by (auto simp: sinkFor_def stepRel_def)
qed

subsection \<open>The address matcher, sorted sequences\<close>

lemma transp_addressOnceRel: "transp (addressOnceRel E p)"
  by (rule transpI) (auto simp: addressOnceRel_def split: if_splits sum.splits)

lemma processBucket_addressOnce:
  assumes "processBucket E p vp b = Inr (b', cs)"
  shows "addressOnceRel E p b b'"
  using assms
  by (auto simp: processBucket_def firstContact_def geometryPass_def coverageReport_def
        addressOnceRel_def split: if_splits sum.splits prod.splits)

lemma finishBucket_addressOnce: "addressOnceRel E p b (fst (finishBucket b))"
  by (auto simp: finishBucket_def addressOnceRel_def)

lemma processBucket_first_contact:
  assumes "processBucket E p vp b = Inr (b', cs)" and "uncontactedIsEligible b"
  shows "uncontactedIsEligible b' \<and>
         (\<not> m_intersectsWithViewport b \<longrightarrow>
            m_intersectsWithViewport b' = IsIntersect vp (m_bounds b))"
  using assms
  by (auto simp: processBucket_def firstContact_def geometryPass_def coverageReport_def
        uncontactedIsEligible_def split: if_splits sum.splits prod.splits)

lemma addressRunForAll_simps [simp]:
  "addressRunForAll [] bs' = []"
  "addressRunForAll bs [] = []"
  "addressRunForAll (b # bs) (b' # bs') = addressRunFor b b' @ addressRunForAll bs bs'"
  by (simp_all add: addressRunForAll_def)

lemma addressRuns_emittedAll:
  "list_all2 R bs bs' \<Longrightarrow> addressRuns (emittedAll bs bs') = addressRunForAll bs bs'"
  by (induction rule: list_all2_induct) simp_all

lemma addressRunForAll_ids:
  "list_all2 stepRel bs bs' \<Longrightarrow>
   set (addressRunForAll bs bs') \<subseteq> set (map (GetId \<circ> m_handle) bs) \<and>
   (distinct (map (GetId \<circ> m_handle) bs) \<longrightarrow> distinct (addressRunForAll bs bs'))"
proof (induction rule: list_all2_induct)
  case Nil
  then show ?case by simp
next
  case (Cons b bs b' bs')
  then show ?case
    by (auto simp: addressRunFor_def stepRel_def)
qed

lemma set_intersection_subset: "set (set_intersection xs ys) \<subseteq> set xs"
  by (induction xs ys rule: set_intersection.induct) auto

lemma set_intersection_sorted_wrt:
  "sorted_wrt P xs \<Longrightarrow> sorted_wrt P (set_intersection xs ys)"
proof (induction xs ys rule: set_intersection.induct)
  case (1 x xs y ys)
  then show ?case
    using set_intersection_subset [of xs ys] by auto
qed simp_all

lemma processBucket_ascending:
  assumes "processBucket E p vp b = Inr (b', cs)" and "ascending b"
  shows "ascending b'"
  using assms
  by (auto simp: processBucket_def firstContact_def geometryPass_def coverageReport_def
        ascending_def set_intersection_sorted_wrt
      split: if_splits sum.splits prod.splits)

lemma strict_sort: "distinct xs \<Longrightarrow> sorted_wrt (<) (sort xs)"
  by (simp add: strict_sorted_iff)

lemma processBucket_strictlyAscending:
  assumes "processBucket E p vp b = Inr (b', cs)" and "strictlyAscending b"
    and "\<forall>v. distinct (MatchFeaturesInTrie E p v)"
  shows "strictlyAscending b'"
  using assms
  by (auto simp: processBucket_def firstContact_def geometryPass_def coverageReport_def
        strictlyAscending_def set_intersection_sorted_wrt strict_sort
        RetrieveAddressFeatures_def
      split: if_splits sum.splits prod.splits option.splits)

lemma sinkForAll_final:
  "list_all2 R bs bs' \<Longrightarrow> c \<in> set (sinkForAll bs bs') \<Longrightarrow>
   \<exists>b' \<in> set bs'. snd c = m_intersection b'"
  by (induction rule: list_all2_induct) (auto simp: sinkFor_def split: if_splits)

lemma Go_sink_final:
  assumes "Go E r = Some (Inr (r', tr))" and "c \<in> set (sinkCalls tr)"
  shows "\<exists>b' \<in> set (m_buckets r'). snd c = m_intersection b'"
proof -
  from Go_account [OF assms(1), of sinkOf]
  have st: "list_all2 stepRel (m_buckets r) (m_buckets r')"
    and ms: "mset (sinkCalls tr) = mset (sinkCalls (emittedAll (m_buckets r) (m_buckets r')))"
    by (simp_all add: sinkCalls_def)
  from ms st have "mset (sinkCalls tr) = mset (sinkForAll (m_buckets r) (m_buckets r'))"
    by (simp add: sinkCalls_emittedAll)
  then have "set (sinkCalls tr) = set (sinkForAll (m_buckets r) (m_buckets r'))"
    by (rule mset_eq_setD)
  with assms(2) sinkForAll_final [OF st] show ?thesis by blast
qed

lemma Go_preserves:
  assumes run: "Go E r = Some (Inr (r', tr))"
    and step: "\<And>vp b b' cs. processBucket E (m_params r) vp b = Inr (b', cs) \<Longrightarrow> I b \<Longrightarrow> I b'"
    and fin: "\<And>b. I b \<Longrightarrow> I (fst (finishBucket b))"
    and init: "list_all I (m_buckets r)"
  shows "list_all I (m_buckets r')"
proof -
  have "transp (\<lambda>b b'. I b \<longrightarrow> I b')" by (rule transpI) simp
  from Go_all2 [OF run this] step fin
  have "list_all2 (\<lambda>b b'. I b \<longrightarrow> I b') (m_buckets r) (m_buckets r')" by blast
  then show ?thesis using init
    by (induction rule: list_all2_induct) simp_all
qed

lemma Go_example_dup:
  "Go dupEnv (exRetrieval (SetMinNumFeatures Limits_new 0)) =
   Some (Inr ((exRetrieval (SetMinNumFeatures Limits_new 0))\<lparr> m_buckets :=
       [mskDone\<lparr> m_addressFeatures := [7, 7], m_geometryFeatures := [7, 7],
                 m_intersection := [7, 7] \<rparr>,
        mtvDone\<lparr> m_addressFeatures := [7, 7], m_geometryFeatures := [7, 7],
                 m_intersection := [7, 7] \<rparr>] \<rparr>,
     [EnterRetrieveForViewport exViewport,
      RunRetrieveAddressFeatures 1, OnMwmProcessed 1 [7, 7],
      RunRetrieveAddressFeatures 2,
      OnMwmProcessed 2 [7, 7]]))"
  unfolding Go_def
  apply (subst goLoop.simps)
  apply (simp add: ex_defs model_defs mskDone_def mtvDone_def)
  done

lemma Init_far_example:
  "Init blankRetrieval farIndex exViewport exParams (SetMinNumFeatures Limits_new 1) =
   Inr farRetrieval"
  by (simp add: ex_defs model_defs)

lemma Go_example_far:
  "Go exEnv farRetrieval =
   Some (Inr (farRetrieval\<lparr> m_buckets := [mskDone, zrhBucket\<lparr> m_finished := True \<rparr>] \<rparr>,
     [EnterRetrieveForViewport exViewport,
      RunRetrieveAddressFeatures 1, OnMwmProcessed 1 [3, 5]]))"
  unfolding Go_def
  apply (subst goLoop.simps)
  apply (simp add: ex_defs model_defs mskDone_def)
  done

subsection \<open>Init\<close>

lemma InitLoop_map_filter:
  "InitLoop index infos buckets =
     Inr (buckets @ List.map_filter initialBucket (map (GetMwmHandleByCountryFile index) infos))"
proof (induction infos arbitrary: buckets)
  case Nil
  then show ?case by simp
next
  case (Cons info infos)
  then show ?case
    by (simp add: initialBucket_def FeatureBucket_new_def Let_def
          split: option.splits)
qed


section \<open>The claims\<close>

text \<open>
  C1, as amended. On every iteration of the expansion loop of \<^verbatim>\<open>Go\<close> the viewport
  handed to the per-viewport pass is the base viewport scaled about its centre by the
  clamped scale of that iteration (the loop variable, or the maximal scale once the loop
  variable has reached it), and the exit tests of the iteration use the same clamped
  scale. The viewports of a run are these, for the iterations \<open>0, \<dots>, n - 1\<close> with
  the loop variable \<open>kViewportScaleMul ^ k\<close>. So when the maximal scale is set, no pass
  runs with a scale larger than it.
\<close>

theorem pass_viewport_uses_clamped_scale:
  assumes "Go E r = Some (Inr (r', tr))"
  shows "(\<forall>viewportScale r0 brk r1 cs.
            goIteration E viewportScale r0 = Inr (brk, r1, cs) \<longrightarrow>
            RetrieveForViewport E r0
              (Scale (m_viewport r0) (clampedScale (m_limits r0) viewportScale)) = Inr (r1, cs) \<and>
            exitTests r1 (clampedScale (m_limits r0) viewportScale) = Inr brk) \<and>
         (\<exists>n>0. passes tr =
            map (\<lambda>k. Scale (m_viewport r) (clampedScale (m_limits r) (kViewportScaleMul ^ k)))
              [0..<n]) \<and>
         (IsMaxViewportScaleSet (m_limits r) \<longrightarrow>
            (\<forall>vp \<in> set (passes tr).
               \<exists>s \<le> m_maxViewportScale (m_limits r). vp = Scale (m_viewport r) s))"
proof -
  from assms obtain rL trL bs' cs where
    loop: "goLoop E 1 r [] = Some (Inr (rL, trL))" and
    drain: "drainLoop (m_buckets rL) = (bs', cs)" and
    tr: "tr = trL @ cs"
    by (rule Go_Some)
  from goLoop_passes [OF loop] drainLoop_passes [OF drain] tr obtain n where
    n: "0 < n" "passes tr =
          map (\<lambda>k. Scale (m_viewport r) (clampedScale (m_limits r) (kViewportScaleMul ^ k)))
            [0..<n]"
    by auto
  have "clampedScale (m_limits r) v \<le> m_maxViewportScale (m_limits r)"
    if "IsMaxViewportScaleSet (m_limits r)" for v
    using that by (simp add: clampedScale_def IsMaxViewportScaleSet_def)
  with n have "(\<exists>n>0. passes tr =
            map (\<lambda>k. Scale (m_viewport r) (clampedScale (m_limits r) (kViewportScaleMul ^ k)))
              [0..<n]) \<and>
         (IsMaxViewportScaleSet (m_limits r) \<longrightarrow>
            (\<forall>vp \<in> set (passes tr).
               \<exists>s \<le> m_maxViewportScale (m_limits r). vp = Scale (m_viewport r) s))"
    by auto
  then show ?thesis
    using goIteration_value by blast
qed

theorem pass_viewport_uses_clamped_scale_witness:
  "passes [EnterRetrieveForViewport exViewport,
      RunRetrieveAddressFeatures 1, OnMwmProcessed 1 [3, 5],
      RunRetrieveAddressFeatures 2,
      EnterRetrieveForViewport \<lparr> m_minX = - (1 / 5), m_minY = - (1 / 5),
                                 m_maxX = 11 / 5, m_maxY = 11 / 5 \<rparr>,
      OnMwmProcessed 2 [3, 5]] =
   [Scale exViewport 1, Scale exViewport (6 / 5)] \<and>
   (\<exists>n>0. [Scale exViewport 1, Scale exViewport (6 / 5)] =
       map (\<lambda>k. Scale exViewport
         (clampedScale (SetMaxViewportScale Limits_new (6 / 5)) (kViewportScaleMul ^ k))) [0..<n])"
  using pass_viewport_uses_clamped_scale [OF Go_example_max]
  by (simp add: exRetrieval_def exViewport_def Scale_def)

text \<open>
  C1 as the spec has it (the pass is given the base viewport scaled by the
  unclamped loop variable) fails on a run with the maximal scale \<open>6 / 5\<close>: the second
  pass is entered with the viewport scaled by \<open>6 / 5\<close>, not by \<open>sqrt 2\<close>, and that
  viewport is not larger than the base viewport scaled by the maximal scale.
\<close>

theorem pass_viewport_unclamped_counterexample:
  "Go exEnv (exRetrieval (SetMaxViewportScale Limits_new (6 / 5))) =
   Some (Inr ((exRetrieval (SetMaxViewportScale Limits_new (6 / 5)))\<lparr> m_buckets := [mskDone, mtvDone] \<rparr>,
     [EnterRetrieveForViewport exViewport,
      RunRetrieveAddressFeatures 1, OnMwmProcessed 1 [3, 5],
      RunRetrieveAddressFeatures 2,
      EnterRetrieveForViewport (Scale exViewport (6 / 5)),
      OnMwmProcessed 2 [3, 5]])) \<and>
   Scale exViewport (6 / 5) \<noteq> Scale exViewport (1 * kViewportScaleMul) \<and>
   IsRectInside (Scale exViewport (6 / 5)) (Scale exViewport (6 / 5))"
proof -
  have "m_maxX (Scale exViewport (6 / 5)) = 11 / 5"
    and "m_maxX (Scale exViewport (1 * kViewportScaleMul)) = 1 + sqrt 2"
    by (simp_all add: exViewport_def Scale_def Let_def kViewportScaleMul_def)
  moreover have "1 + sqrt 2 \<noteq> 11 / 5"
    using sqrt2_neq by simp
  ultimately have "Scale exViewport (6 / 5) \<noteq> Scale exViewport (1 * kViewportScaleMul)"
    by metis
  moreover have "Scale exViewport (6 / 5) =
      \<lparr> m_minX = - (1 / 5), m_minY = - (1 / 5), m_maxX = 11 / 5, m_maxY = 11 / 5 \<rparr>"
    by (simp add: exViewport_def Scale_def)
  ultimately show ?thesis
    by (simp add: Go_example_max IsRectInside_def)
qed

text \<open>
  C2. The callback is called for a bucket if and only if the intersection of the bucket
  is not empty when the bucket becomes finished, in the pass (full coverage) and in the
  drain alike; a finished bucket is never changed again, so it becomes finished at most
  once, and after \<^verbatim>\<open>Go\<close> every bucket is finished. Over a run the calls are, as a
  multiset, one call with the final intersection for each bucket that was not finished
  before and ends with a non-empty intersection; with distinct mwm ids in the working
  set no id is reported twice.
\<close>

theorem sink_called_iff_nonempty_when_finished:
  assumes "Go E r = Some (Inr (r', tr))"
  shows "(\<forall>p vp b b1 cs1. processBucket E p vp b = Inr (b1, cs1) \<longrightarrow>
            sinkCalls cs1 = sinkFor b b1 \<and> keptIfFinished b b1) \<and>
         (\<forall>b. sinkCalls (snd (finishBucket b)) = sinkFor b (fst (finishBucket b)) \<and>
              keptIfFinished b (fst (finishBucket b))) \<and>
         list_all2 keptIfFinished (m_buckets r) (m_buckets r') \<and>
         list_all m_finished (m_buckets r') \<and>
         mset (sinkCalls tr) = mset (sinkForAll (m_buckets r) (m_buckets r')) \<and>
         (distinct (map (GetId \<circ> m_handle) (m_buckets r)) \<longrightarrow>
            distinct (map fst (sinkCalls tr)))"
proof -
  from Go_account [OF assms, of sinkOf]
  have st: "list_all2 stepRel (m_buckets r) (m_buckets r')"
    and ms: "mset (sinkCalls tr) = mset (sinkCalls (emittedAll (m_buckets r) (m_buckets r')))"
    by (simp_all add: sinkCalls_def)
  from ms st have acc: "mset (sinkCalls tr) = mset (sinkForAll (m_buckets r) (m_buckets r'))"
    by (simp add: sinkCalls_emittedAll)
  then have "mset (map fst (sinkCalls tr)) = mset (map fst (sinkForAll (m_buckets r) (m_buckets r')))"
    by simp
  then have "distinct (map fst (sinkCalls tr)) =
             distinct (map fst (sinkForAll (m_buckets r) (m_buckets r')))"
    by (rule mset_eq_imp_distinct_iff)
  with sinkForAll_ids [OF st]
  have d: "distinct (map (GetId \<circ> m_handle) (m_buckets r)) \<longrightarrow> distinct (map fst (sinkCalls tr))"
    by simp
  from assms obtain rL bs' cs where
    "drainLoop (m_buckets rL) = (bs', cs)" "r' = rL\<lparr> m_buckets := bs' \<rparr>"
    by (rule Go_Some)
  then have fin: "list_all m_finished (m_buckets r')"
    by (simp add: drainLoop_all_finished)
  have s1: "sinkCalls cs1 = sinkFor b b1 \<and> keptIfFinished b b1"
    if "processBucket E p vp b = Inr (b1, cs1)" for p vp b b1 cs1
    using processBucket_step [OF that] by (simp add: stepRel_kept)
  have s2: "sinkCalls (snd (finishBucket b)) = sinkFor b (fst (finishBucket b)) \<and>
            keptIfFinished b (fst (finishBucket b))" for b
    using finishBucket_step [of b] by (simp add: stepRel_kept)
  from s1 s2 st acc d fin show ?thesis
    by (simp add: list_all2_stepRel_kept)
qed

theorem sink_called_iff_nonempty_when_finished_witness:
  "sinkForAll [mskBucket, mtvBucket] [mskDone, mtvDone] = [(1, [3, 5]), (2, [3, 5])] \<and>
   mset (sinkCalls [EnterRetrieveForViewport exViewport,
        RunRetrieveAddressFeatures 1, OnMwmProcessed 1 [3, 5],
        RunRetrieveAddressFeatures 2,
        OnMwmProcessed 2 [3, 5]]) = mset [(1, [3, 5]), (2, [3, 5])] \<and>
   distinct (map (GetId \<circ> m_handle) [mskBucket, mtvBucket]) \<and>
   list_all m_finished [mskDone, mtvDone]"
  using sink_called_iff_nonempty_when_finished [OF Go_example_min0]
  by (simp add: exRetrieval_def sinkFor_def mskDone_def mtvDone_def mskBucket_def mtvBucket_def
        mskHandle_def mtvHandle_def)

text \<open>
  C3, as amended. Every callback call carries an ascending sequence of feature ids,
  whatever the two matchers put out; the sequence is strictly ascending, so free of
  duplicates, for every output of the geometry matcher (duplicates included) provided
  the output of the address matcher has no duplicates. Both hold from any working set
  whose cached sequences are sorted (strictly sorted), as every working set built by
  \<^verbatim>\<open>Init\<close> is, and \<^verbatim>\<open>Go\<close> keeps the working set so.
\<close>

theorem sink_sequences_ascending:
  assumes "Go E r = Some (Inr (r', tr))"
  shows "(list_all ascending (m_buckets r) \<longrightarrow>
            list_all ascending (m_buckets r') \<and>
            (\<forall>c \<in> set (sinkCalls tr). sorted (snd c))) \<and>
         (list_all strictlyAscending (m_buckets r) \<and>
          (\<forall>v. distinct (MatchFeaturesInTrie E (m_params r) v)) \<longrightarrow>
            list_all strictlyAscending (m_buckets r') \<and>
            (\<forall>c \<in> set (sinkCalls tr). sorted_wrt (<) (snd c) \<and> distinct (snd c))) \<and>
         (\<forall>r0 index viewport params limits.
            Init r0 index viewport params limits = Inr r \<longrightarrow>
            list_all strictlyAscending (m_buckets r) \<and> list_all ascending (m_buckets r))"
proof (intro conjI impI allI)
  assume a: "list_all ascending (m_buckets r)"
  show a': "list_all ascending (m_buckets r')"
    by (rule Go_preserves [OF assms _ _ a])
       (auto simp: finishBucket_def ascending_def dest: processBucket_ascending)
  show "\<forall>c \<in> set (sinkCalls tr). sorted (snd c)"
  proof
    fix c assume "c \<in> set (sinkCalls tr)"
    from Go_sink_final [OF assms this] a' show "sorted (snd c)"
      by (auto simp: list_all_iff ascending_def)
  qed
next
  assume "list_all strictlyAscending (m_buckets r) \<and>
          (\<forall>v. distinct (MatchFeaturesInTrie E (m_params r) v))"
  then have a: "list_all strictlyAscending (m_buckets r)"
    and d: "\<forall>v. distinct (MatchFeaturesInTrie E (m_params r) v)" by simp_all
  show a': "list_all strictlyAscending (m_buckets r')"
    by (rule Go_preserves [OF assms _ _ a])
       (auto simp: finishBucket_def strictlyAscending_def
          dest: processBucket_strictlyAscending [OF _ _ d])
  show "\<forall>c \<in> set (sinkCalls tr). sorted_wrt (<) (snd c) \<and> distinct (snd c)"
  proof
    fix c assume "c \<in> set (sinkCalls tr)"
    from Go_sink_final [OF assms this] a' show "sorted_wrt (<) (snd c) \<and> distinct (snd c)"
      by (auto simp: list_all_iff strictlyAscending_def strict_sorted_iff)
  qed
next
  fix r0 index viewport params limits
  assume "Init r0 index viewport params limits = Inr r"
  then have "m_buckets r = List.map_filter initialBucket
             (map (GetMwmHandleByCountryFile index) (GetMwmsInfo index))"
    by (auto simp: Init_def InitLoop_map_filter)
  then have "\<forall>b \<in> set (m_buckets r). m_addressFeatures b = [] \<and> m_intersection b = []"
    by (auto simp: List.map_filter_def initialBucket_def split: option.splits if_splits)
  then show "list_all strictlyAscending (m_buckets r)" and "list_all ascending (m_buckets r)"
    by (simp_all add: list_all_iff strictlyAscending_def ascending_def)
qed

theorem sink_sequences_ascending_witness:
  "list_all ascending [mskBucket, mtvBucket] \<and>
   list_all strictlyAscending [mskBucket, mtvBucket] \<and>
   distinct (MatchFeaturesInTrie exEnv exParams mskValue) \<and>
   RetrieveGeometryFeatures exEnv mskHandle exViewport exParams = Inr [3, 3, 5, 9] \<and>
   list_all strictlyAscending [mskDone, mtvDone] \<and>
   sinkCalls [EnterRetrieveForViewport exViewport,
        RunRetrieveAddressFeatures 1, OnMwmProcessed 1 [3, 5],
        RunRetrieveAddressFeatures 2,
        OnMwmProcessed 2 [3, 5]] = [(1, [3, 5]), (2, [3, 5])] \<and>
   sorted_wrt (<) [3, 5 :: uint32]"
  using sink_sequences_ascending [OF Go_example_min0]
  by (simp add: exRetrieval_def) (simp add: ex_defs mskDone_def mtvDone_def model_defs
        ascending_def strictlyAscending_def)

text \<open>
  C3 as the spec has it (strictly ascending for all outputs of both matchers)
  fails when both matchers put out the id 7 twice: \<^verbatim>\<open>std::set_intersection\<close> keeps
  as many copies of an element as both ranges have, and the callback gets \<open>[7, 7]\<close>.
\<close>

theorem sink_sequence_duplicates_counterexample:
  "Init blankRetrieval exIndex exViewport exParams (SetMinNumFeatures Limits_new 0) =
     Inr (exRetrieval (SetMinNumFeatures Limits_new 0)) \<and>
   RetrieveAddressFeatures dupEnv mskHandle exParams = Inr [7, 7] \<and>
   RetrieveGeometryFeatures dupEnv mskHandle exViewport exParams = Inr [7, 7] \<and>
   (\<exists>r'. Go dupEnv (exRetrieval (SetMinNumFeatures Limits_new 0)) =
     Some (Inr (r',
       [EnterRetrieveForViewport exViewport,
        RunRetrieveAddressFeatures 1, OnMwmProcessed 1 [7, 7],
        RunRetrieveAddressFeatures 2,
        OnMwmProcessed 2 [7, 7]]))) \<and>
   \<not> sorted_wrt (<) [7, 7 :: uint32] \<and> \<not> distinct [7, 7 :: uint32]"
  by (simp add: Go_example_dup Init_example)
     (simp add: ex_defs model_defs)

text \<open>
  C4, as amended. If the minimal number of features is set to 0 and the maximal scale
  is not set, \<^verbatim>\<open>Go\<close> returns, and its expansion loop leaves after the first
  iteration: exactly one per-viewport pass runs, with the base viewport at scale 1,
  whether or not that viewport covers the bounds of every admitted mwm.
\<close>

theorem min_zero_exits_after_first_pass:
  assumes "IsMinNumFeaturesSet (m_limits r)"
    and "GetMinNumFeatures (m_limits r) = Inr 0"
    and "\<not> IsMaxViewportScaleSet (m_limits r)"
  shows "(\<exists>y. Go E r = Some y) \<and>
         (\<forall>r' tr. Go E r = Some (Inr (r', tr)) \<longrightarrow> passes tr = [Scale (m_viewport r) 1])"
proof (cases "goIteration E 1 r")
  case (Inl e)
  then have "goLoop E 1 r [] = Some (Inl e)"
    by (subst goLoop.simps) simp
  then show ?thesis by (simp add: Go_def)
next
  case (Inr t)
  obtain brk r1 cs where t: "t = (brk, r1, cs)" by (cases t)
  from assms have lim: "m_minNumFeaturesSet (m_limits r)" "m_minNumFeatures (m_limits r) = 0"
    "\<not> m_maxViewportScaleSet (m_limits r)"
    by (simp_all add: IsMinNumFeaturesSet_def GetMinNumFeatures_def IsMaxViewportScaleSet_def)
  from Inr t have it: "goIteration E 1 r = Inr (brk, r1, cs)" by simp
  from goIteration_value [OF it] lim
  have pass: "RetrieveForViewport E r (Scale (m_viewport r) 1) = Inr (r1, cs)"
    and ex: "exitTests r1 (clampedScale (m_limits r) 1) = Inr brk"
    by (simp_all add: clampedScale_def)
  from RetrieveForViewport_step [OF pass] lim have "m_minNumFeaturesSet (m_limits r1)"
    "m_minNumFeatures (m_limits r1) = 0"
    by (simp_all add: sameConfig_def)
  with ex have brk by (simp add: exitTests_value)
  with it have loop: "goLoop E 1 r [] = Some (Inr (r1, cs))"
    by (subst goLoop.simps) simp
  obtain bs' cs' where drain: "drainLoop (m_buckets r1) = (bs', cs')"
    by (cases "drainLoop (m_buckets r1)")
  with loop have "Go E r = Some (Inr (r1\<lparr> m_buckets := bs' \<rparr>, cs @ cs'))"
    by (simp add: Go_def)
  with RetrieveForViewport_passes [OF pass] drainLoop_passes [OF drain] show ?thesis
    by simp
qed

theorem min_zero_exits_after_first_pass_witness:
  "(\<exists>y. Go exEnv (exRetrieval (SetMinNumFeatures Limits_new 0)) = Some y) \<and>
   passes [EnterRetrieveForViewport exViewport,
        RunRetrieveAddressFeatures 1, OnMwmProcessed 1 [3, 5],
        RunRetrieveAddressFeatures 2,
        OnMwmProcessed 2 [3, 5]] = [Scale exViewport 1]"
  using min_zero_exits_after_first_pass [of "exRetrieval (SetMinNumFeatures Limits_new 0)" exEnv]
  by (simp add: Go_example_min0)
     (simp add: ex_defs model_defs)

text \<open>
  C4 as the spec has it (the loop still runs until full coverage) fails on the
  concrete index: with the minimum set to 0 the loop leaves after one pass although the
  bounds of \<open>mtv\<close> are not inside the viewport and the bucket is not covered.
\<close>

theorem min_zero_stops_before_coverage_counterexample:
  "IsMinNumFeaturesSet (SetMinNumFeatures Limits_new 0) \<and>
   GetMinNumFeatures (SetMinNumFeatures Limits_new 0) = Inr 0 \<and>
   \<not> IsMaxViewportScaleSet (SetMinNumFeatures Limits_new 0) \<and>
   Init blankRetrieval exIndex exViewport exParams (SetMinNumFeatures Limits_new 0) =
     Inr (exRetrieval (SetMinNumFeatures Limits_new 0)) \<and>
   Go exEnv (exRetrieval (SetMinNumFeatures Limits_new 0)) =
     Some (Inr ((exRetrieval (SetMinNumFeatures Limits_new 0))\<lparr> m_buckets := [mskDone, mtvDone] \<rparr>,
       [EnterRetrieveForViewport exViewport,
        RunRetrieveAddressFeatures 1, OnMwmProcessed 1 [3, 5],
        RunRetrieveAddressFeatures 2,
        OnMwmProcessed 2 [3, 5]])) \<and>
   \<not> IsRectInside exViewport (m_bounds mtvDone) \<and>
   \<not> ViewportCoversAllMwms
       ((exRetrieval (SetMinNumFeatures Limits_new 0))\<lparr> m_buckets := [mskDone, mtvDone] \<rparr>)"
  by (simp add: Go_example_min0 Init_example)
     (simp add: ex_defs mskDone_def mtvDone_def model_defs)

text \<open>
  C5. After \<^verbatim>\<open>Go\<close> has returned every bucket of the working set is finished, and a
  second call of \<^verbatim>\<open>Go\<close> on the same object, with no \<^verbatim>\<open>Init\<close> in between, returns
  as well, leaves the object as it is and calls the callback zero times.
\<close>

theorem Go_second_run_is_silent:
  assumes "Go E r = Some (Inr (r', tr))"
  shows "list_all m_finished (m_buckets r') \<and>
         (\<exists>tr2. Go E r' = Some (Inr (r', tr2)) \<and> sinkCalls tr2 = [])"
proof -
  from assms obtain rL trL bs' cs where
    loop: "goLoop E 1 r [] = Some (Inr (rL, trL))" and
    drain: "drainLoop (m_buckets rL) = (bs', cs)" and
    r': "r' = rL\<lparr> m_buckets := bs' \<rparr>"
    by (rule Go_Some)
  from drainLoop_all_finished [OF drain] r' have fin: "list_all m_finished (m_buckets r')"
    by simp
  from goLoop_step [OF loop] r' have cfg: "m_limits r' = m_limits r"
    by (simp add: sameConfig_def)
  from drainLoop_progress [OF drain] r'
  have "ViewportCoversAllMwms r' = ViewportCoversAllMwms rL"
    and "CountRetrievedFeatures r' = CountRetrievedFeatures rL" by simp_all
  from goLoop_rerun [OF loop fin cfg this, of "[]"] obtain tr1 where
    rerun: "goLoop E 1 r' [] = Some (Inr (r', tr1))" and quiet: "sinkCalls tr1 = []"
    by auto
  from rerun fin have "Go E r' = Some (Inr (r', tr1))"
    by (simp add: Go_def drainLoop_finished)
  with fin quiet show ?thesis by blast
qed

theorem Go_second_run_is_silent_witness:
  "list_all m_finished [mskDone, mtvDone] \<and>
   (\<exists>tr2. Go exEnv ((exRetrieval (SetMinNumFeatures Limits_new 0))\<lparr> m_buckets := [mskDone, mtvDone] \<rparr>) =
            Some (Inr ((exRetrieval (SetMinNumFeatures Limits_new 0))\<lparr> m_buckets := [mskDone, mtvDone] \<rparr>, tr2)) \<and>
          sinkCalls tr2 = [])"
  using Go_second_run_is_silent [OF Go_example_min0]
  by (simp add: exRetrieval_def)

text \<open>
  C6, as amended. For every bucket the address matcher is run at most once over the
  lifetime of the retrieval, and exactly once for a bucket that some pass contacts: a
  bucket never contacted is eligible in every pass, and the pass contacts it exactly
  when its viewport intersects the bounds of the bucket; that first contact stores the
  sorted output of the address matcher in the address features and sets the flag, and
  no later step rewrites the address features. Over a run of \<^verbatim>\<open>Go\<close> the runs of the
  matcher are, as a multiset, one for each bucket whose flag went from false to true.
\<close>

theorem address_matcher_runs_at_first_contact:
  assumes "Go E r = Some (Inr (r', tr))"
  shows "(\<forall>p vp b b1 cs1. processBucket E p vp b = Inr (b1, cs1) \<longrightarrow>
            addressOnceRel E p b b1 \<and> addressRuns cs1 = addressRunFor b b1 \<and>
            (uncontactedIsEligible b \<longrightarrow>
               uncontactedIsEligible b1 \<and>
               (\<not> m_intersectsWithViewport b \<longrightarrow>
                  m_intersectsWithViewport b1 = IsIntersect vp (m_bounds b)))) \<and>
         (\<forall>b. addressRuns (snd (finishBucket b)) = [] \<and>
              m_addressFeatures (fst (finishBucket b)) = m_addressFeatures b \<and>
              m_intersectsWithViewport (fst (finishBucket b)) = m_intersectsWithViewport b) \<and>
         list_all2 (addressOnceRel E (m_params r)) (m_buckets r) (m_buckets r') \<and>
         mset (addressRuns tr) = mset (addressRunForAll (m_buckets r) (m_buckets r')) \<and>
         (distinct (map (GetId \<circ> m_handle) (m_buckets r)) \<longrightarrow> distinct (addressRuns tr))"
proof -
  from Go_account [OF assms, of addressRunOf]
  have st: "list_all2 stepRel (m_buckets r) (m_buckets r')"
    and ms: "mset (addressRuns tr) = mset (addressRuns (emittedAll (m_buckets r) (m_buckets r')))"
    by (simp_all add: addressRuns_def)
  from ms st have acc: "mset (addressRuns tr) = mset (addressRunForAll (m_buckets r) (m_buckets r'))"
    by (simp add: addressRuns_emittedAll)
  then have "distinct (addressRuns tr) = distinct (addressRunForAll (m_buckets r) (m_buckets r'))"
    by (rule mset_eq_imp_distinct_iff)
  with addressRunForAll_ids [OF st]
  have d: "distinct (map (GetId \<circ> m_handle) (m_buckets r)) \<longrightarrow> distinct (addressRuns tr)"
    by simp
  have once: "list_all2 (addressOnceRel E (m_params r)) (m_buckets r) (m_buckets r')"
    using Go_all2 [OF assms transp_addressOnceRel, of E "m_params r"]
    by (simp add: processBucket_addressOnce finishBucket_addressOnce)
  have s1: "addressOnceRel E p b b1 \<and> addressRuns cs1 = addressRunFor b b1 \<and>
            (uncontactedIsEligible b \<longrightarrow>
               uncontactedIsEligible b1 \<and>
               (\<not> m_intersectsWithViewport b \<longrightarrow>
                  m_intersectsWithViewport b1 = IsIntersect vp (m_bounds b)))"
    if "processBucket E p vp b = Inr (b1, cs1)" for p vp b b1 cs1
    using processBucket_step [OF that] processBucket_addressOnce [OF that]
      processBucket_first_contact [OF that]
    by simp
  have s2: "addressRuns (snd (finishBucket b)) = [] \<and>
            m_addressFeatures (fst (finishBucket b)) = m_addressFeatures b \<and>
            m_intersectsWithViewport (fst (finishBucket b)) = m_intersectsWithViewport b" for b
    by (simp add: finishBucket_def)
  from s1 s2 once acc d show ?thesis by blast
qed

theorem address_matcher_runs_at_first_contact_witness:
  "addressRunForAll [mskBucket, mtvBucket] [mskDone, mtvDone] = [1, 2] \<and>
   mset (addressRuns [EnterRetrieveForViewport exViewport,
        RunRetrieveAddressFeatures 1, OnMwmProcessed 1 [3, 5],
        RunRetrieveAddressFeatures 2,
        OnMwmProcessed 2 [3, 5]]) = mset [1, 2] \<and>
   list_all2 (addressOnceRel exEnv exParams) [mskBucket, mtvBucket] [mskDone, mtvDone] \<and>
   m_addressFeatures mskDone = sort [5, 3, 8] \<and>
   uncontactedIsEligible mskBucket \<and> IsIntersect exViewport (m_bounds mskBucket)"
  using address_matcher_runs_at_first_contact [OF Go_example_min0]
  by (simp add: exRetrieval_def addressRunFor_def mskDone_def mtvDone_def mskBucket_def
        mtvBucket_def mskHandle_def mtvHandle_def)
     (simp add: ex_defs uncontactedIsEligible_def IsIntersect_def)

text \<open>
  C6 as the spec has it (exactly once for every bucket) fails for a bucket that
  no pass contacts: with \<open>msk\<close> under the viewport, \<open>zrh\<close> far from it and a minimal
  number of features of 1, the loop leaves after the first pass, and the address matcher
  has never run on \<open>zrh\<close>, whose address features are still empty.
\<close>

theorem address_matcher_never_runs_counterexample:
  "Init blankRetrieval farIndex exViewport exParams (SetMinNumFeatures Limits_new 1) =
     Inr farRetrieval \<and>
   Go exEnv farRetrieval =
     Some (Inr (farRetrieval\<lparr> m_buckets := [mskDone, zrhBucket\<lparr> m_finished := True \<rparr>] \<rparr>,
       [EnterRetrieveForViewport exViewport,
        RunRetrieveAddressFeatures 1, OnMwmProcessed 1 [3, 5]])) \<and>
   m_buckets farRetrieval = [mskBucket, zrhBucket] \<and>
   count_list (addressRuns [EnterRetrieveForViewport exViewport,
        RunRetrieveAddressFeatures 1, OnMwmProcessed 1 [3, 5]]) (GetId (m_handle zrhBucket)) = 0 \<and>
   m_addressFeatures (zrhBucket\<lparr> m_finished := True \<rparr>) = [] \<and>
   \<not> m_intersectsWithViewport (zrhBucket\<lparr> m_finished := True \<rparr>)"
  by (simp add: Init_far_example Go_example_far)
     (simp add: farRetrieval_def zrhBucket_def zrhHandle_def)

text \<open>
  C7. Once the finished flag of a bucket is true, no later step changes any field of
  the bucket: the body of the pass and the body of the drain return such a bucket as it
  is and emit nothing, and so do a whole pass (for any viewport), the drain, the
  expansion loop and \<^verbatim>\<open>Go\<close>.
\<close>

theorem finished_bucket_is_frozen:
  "(m_finished b \<longrightarrow> processBucket E p vp b = Inr (b, []) \<and> finishBucket b = (b, [])) \<and>
   (RetrieveForViewport E r vp = Inr (r1, cs1) \<longrightarrow>
      list_all2 keptIfFinished (m_buckets r) (m_buckets r1)) \<and>
   (drainLoop bs = (bs2, cs2) \<longrightarrow> list_all2 keptIfFinished bs bs2) \<and>
   (goLoop E vs r tr = Some (Inr (r3, tr3)) \<longrightarrow>
      list_all2 keptIfFinished (m_buckets r) (m_buckets r3)) \<and>
   (Go E r = Some (Inr (r4, tr4)) \<longrightarrow>
      list_all2 keptIfFinished (m_buckets r) (m_buckets r4))"
proof (intro conjI impI)
  assume "RetrieveForViewport E r vp = Inr (r1, cs1)"
  from RetrieveForViewport_step [OF this]
  show "list_all2 keptIfFinished (m_buckets r) (m_buckets r1)"
    by (simp add: list_all2_stepRel_kept)
next
  assume "drainLoop bs = (bs2, cs2)"
  then show "list_all2 keptIfFinished bs bs2"
    by (intro list_all2_stepRel_kept drainLoop_step)
next
  assume "goLoop E vs r tr = Some (Inr (r3, tr3))"
  from goLoop_step [OF this]
  show "list_all2 keptIfFinished (m_buckets r) (m_buckets r3)"
    by (simp add: list_all2_stepRel_kept)
next
  assume "Go E r = Some (Inr (r4, tr4))"
  from Go_step [OF this]
  show "list_all2 keptIfFinished (m_buckets r) (m_buckets r4)"
    by (simp add: list_all2_stepRel_kept)
qed (simp_all add: processBucket_finished finishBucket_finished)

theorem finished_bucket_is_frozen_witness:
  "m_finished mskDone \<and>
   processBucket exEnv exParams (Scale exViewport (6 / 5)) mskDone = Inr (mskDone, []) \<and>
   finishBucket mskDone = (mskDone, []) \<and>
   list_all2 keptIfFinished [mskBucket, mtvBucket] [mskDone, mtvDone]"
  using finished_bucket_is_frozen [where b = mskDone and E = exEnv and p = exParams
      and vp = "Scale exViewport (6 / 5)"
      and r = "exRetrieval (SetMinNumFeatures Limits_new 0)"
      and ?r4.0 = "(exRetrieval (SetMinNumFeatures Limits_new 0))\<lparr> m_buckets := [mskDone, mtvDone] \<rparr>"
      and ?tr4.0 = "[EnterRetrieveForViewport exViewport,
        RunRetrieveAddressFeatures 1, OnMwmProcessed 1 [3, 5],
        RunRetrieveAddressFeatures 2,
        OnMwmProcessed 2 [3, 5]]"]
  by (simp add: Go_example_min0) (simp add: exRetrieval_def mskDone_def)

text \<open>
  C8. If the working set is empty after \<^verbatim>\<open>Init\<close> (no mwm was admitted), \<^verbatim>\<open>Go\<close>
  returns after a single iteration of the expansion loop, the test that every bucket is
  covered holding vacuously, and calls the callback zero times: the trace of the run is
  the entry of one per-viewport pass and nothing else, and the retrieval object is
  unchanged.
\<close>

theorem Go_empty_working_set:
  assumes "m_buckets r = []"
  shows "Go E r = Some (Inr (r, [EnterRetrieveForViewport (Scale (m_viewport r)
            (if m_maxViewportScaleSet (m_limits r) \<and> 1 \<ge> m_maxViewportScale (m_limits r)
             then m_maxViewportScale (m_limits r) else 1))])) \<and>
         (\<forall>r' tr. Go E r = Some (Inr (r', tr)) \<longrightarrow> length (passes tr) = 1 \<and> sinkCalls tr = [])"
proof -
  have "goIteration E 1 r = Inr (True, r, [EnterRetrieveForViewport (Scale (m_viewport r)
            (if m_maxViewportScaleSet (m_limits r) \<and> 1 \<ge> m_maxViewportScale (m_limits r)
             then m_maxViewportScale (m_limits r) else 1))])"
    using assms
    by (simp add: goIteration_def iterationScale_value exitTests_value RetrieveForViewport_def
          ViewportCoversAllMwms_def)
  then show ?thesis using assms
    by (subst (1 2) Go_def, subst (1 2) goLoop.simps) simp
qed

theorem Go_empty_working_set_witness:
  "Init blankRetrieval emptyIndex exViewport exParams Limits_new = Inr emptyRetrieval \<and>
   m_buckets emptyRetrieval = [] \<and>
   Go exEnv emptyRetrieval = Some (Inr (emptyRetrieval, [EnterRetrieveForViewport exViewport])) \<and>
   length (passes [EnterRetrieveForViewport exViewport]) = 1 \<and>
   sinkCalls [EnterRetrieveForViewport exViewport] = []"
  using Go_empty_working_set [of emptyRetrieval exEnv]
  by (simp add: Init_empty_example)
     (simp add: emptyRetrieval_def exViewport_def Scale_def Limits_new_def)

text \<open>
  C9. During \<^verbatim>\<open>Go\<close> every call of \<^verbatim>\<open>GetMaxViewportScale\<close> and of
  \<^verbatim>\<open>GetMinNumFeatures\<close> is guarded by the matching \<^verbatim>\<open>Is...Set\<close> test: the getters do
  fail with \<open>Misconfiguration\<close> on limits that were never set, but neither the expansion
  loop (from any scale and any state) nor \<^verbatim>\<open>Go\<close> ever ends in that error, whatever
  limits the caller has set.
\<close>

theorem Go_limits_guarded:
  "GetMinNumFeatures Limits_new = Inl Misconfiguration \<and>
   GetMaxViewportScale Limits_new = Inl Misconfiguration \<and>
   goLoop E viewportScale r tr \<noteq> Some (Inl Misconfiguration) \<and>
   Go E r \<noteq> Some (Inl Misconfiguration)"
proof -
  have a: "goLoop E vs r tr \<noteq> Some (Inl Misconfiguration)" for vs tr
    using goLoop_error [of E vs r tr] by blast
  have "Go E r \<noteq> Some (Inl Misconfiguration)"
    using a [of 1 "[]"]
    by (auto simp: Go_def split: option.splits sum.splits prod.splits)
  with a show ?thesis
    by (simp add: GetMinNumFeatures_def GetMaxViewportScale_def IsMinNumFeaturesSet_def
          IsMaxViewportScaleSet_def Limits_new_def)
qed

theorem Go_limits_guarded_witness:
  "Go exEnv (exRetrieval Limits_new) \<noteq> Some (Inl Misconfiguration) \<and>
   Go exEnv (exRetrieval (SetMinNumFeatures Limits_new 0)) \<noteq> Some (Inl Misconfiguration)"
  using Go_limits_guarded [of exEnv 1 "exRetrieval Limits_new" "[]"]
    Go_limits_guarded [of exEnv 1 "exRetrieval (SetMinNumFeatures Limits_new 0)" "[]"]
  by simp

text \<open>
  C10. \<^verbatim>\<open>Init\<close> discards any previous working set: whatever the retrieval object
  held before, afterwards it holds the four inputs and exactly one fresh bucket for each
  entry of the registry whose handle is alive and has both the search-index and the
  index section, in the order of the registry; each of these buckets has all three flags
  false and all three feature sequences empty, and its bounds are those of the header.
\<close>

theorem Init_fresh_working_set:
  "Init r index viewport params limits =
     Inr \<lparr> m_index = Some index, m_viewport = viewport, m_params = params, m_limits = limits,
           m_buckets = List.map_filter initialBucket
             (map (GetMwmHandleByCountryFile index) (GetMwmsInfo index)) \<rparr> \<and>
   (\<forall>h b. initialBucket h = Some b \<longrightarrow>
      IsAlive h \<and> (\<exists>v. GetValue h = Some v \<and> IsExist_SEARCH_INDEX v \<and> IsExist_INDEX v \<and>
                       m_bounds b = GetBounds v) \<and>
      m_handle b = h \<and>
      \<not> m_intersectsWithViewport b \<and> \<not> m_coveredByViewport b \<and> \<not> m_finished b \<and>
      m_addressFeatures b = [] \<and> m_geometryFeatures b = [] \<and> m_intersection b = []) \<and>
   (\<forall>h. initialBucket h = None \<longrightarrow>
      \<not> (IsAlive h \<and> (\<exists>v. GetValue h = Some v \<and> IsExist_SEARCH_INDEX v \<and> IsExist_INDEX v)))"
  by (cases r) (auto simp: Init_def InitLoop_map_filter initialBucket_def
        split: option.splits if_splits)

theorem Init_fresh_working_set_witness:
  "Init blankRetrieval exIndex exViewport exParams Limits_new = Inr (exRetrieval Limits_new) \<and>
   Init (exRetrieval (SetMinNumFeatures Limits_new 0)\<lparr> m_buckets := [mskDone, mtvDone] \<rparr>)
     exIndex exViewport exParams Limits_new = Inr (exRetrieval Limits_new) \<and>
   initialBucket mskHandle = Some mskBucket \<and> initialBucket noSearchHandle = None \<and>
   initialBucket deadHandle = None"
  using Init_fresh_working_set [of blankRetrieval exIndex exViewport exParams Limits_new]
    Init_fresh_working_set [of "exRetrieval (SetMinNumFeatures Limits_new 0)\<lparr> m_buckets := [mskDone, mtvDone] \<rparr>"
      exIndex exViewport exParams Limits_new]
  by (simp add: ex_defs initialBucket_def)

end
